theory Spec2Isabelle
  imports Main "HOL-Library.Sublist" "HOL-Library.Word"
begin

section \<open>JavaScript strings and values\<close>

text \<open>
  A JavaScript string is modelled as a \<open>string\<close>: the list of its code units, each below
  256.  In that range the line terminators of a regular expression's \<open>.\<close> are line feed and
  carriage return; the other two, U+2028 and U+2029, lie outside the range, and no statement
  below speaks about strings that contain them.  The single quote cannot stand inside a string
  literal of HOL, so it gets a name.
\<close>

definition quote :: char where
  "quote = CHR 0x27"

definition isLineTerminator :: "char \<Rightarrow> bool" where
  "isLineTerminator c = (c = CHR 0x0A \<or> c = CHR 0x0D)"

text \<open>\<open>String.prototype.includes\<close>, \<open>startsWith\<close> and \<open>endsWith\<close>.\<close>

fun strIncludes :: "string \<Rightarrow> string \<Rightarrow> bool" where
  "strIncludes [] sub = (sub = [])"
| "strIncludes (c # cs) sub = (prefix sub (c # cs) \<or> strIncludes cs sub)"

definition startsWith :: "string \<Rightarrow> string \<Rightarrow> bool" where
  "startsWith s p = prefix p s"

definition endsWith :: "string \<Rightarrow> string \<Rightarrow> bool" where
  "endsWith s p = suffix p s"

text \<open>\<open>Array.prototype.join\<close> on an array of strings.\<close>

fun join :: "string \<Rightarrow> string list \<Rightarrow> string" where
  "join sep [] = []"
| "join sep [x] = x"
| "join sep (x # y # ys) = x @ sep @ join sep (y # ys)"

text \<open>
  The values \<open>readPackageMetadata\<close> stores under a metadata key: the text of an element, or
  for an element with child elements the array of the children's attribute objects
  (\<open>children.map((child) => child.attr)\<close>).  An absent key reads as \<open>undefined\<close>, here
  \<open>None\<close>.
\<close>

type_synonym attrs = "(string \<times> string) list"

datatype jsval = Str string | Arr "attrs list"

type_synonym bytes = "8 word list"

text \<open>
  A package entry: the keys taken from the nuspec (with the keys that
  \<open>preprocessPackageMetadata\<close> adds), and under the key \<open>nupkgData\<close> the buffer of the
  archive (\<open>metadata.nupkgData = zipReader.toBuffer()\<close>), absent for a package hosted
  elsewhere.
\<close>

record PackageMetadata =
  props :: "string \<rightharpoonup> jsval"
  nupkgData :: "bytes option"

text \<open>Truthiness: \<open>undefined\<close> and the empty string are falsy, every array is truthy.\<close>

fun truthy :: "jsval option \<Rightarrow> bool" where
  "truthy None = False"
| "truthy (Some (Str s)) = (s \<noteq> [])"
| "truthy (Some (Arr xs)) = True"

text \<open>
  Conversion to a string, as \<open>+\<close> with a string and a template literal do it: an array
  joins its elements with a comma, and each element, a plain object, reads
  \<open>[object Object]\<close>.
\<close>

fun toString :: "jsval option \<Rightarrow> string" where
  "toString None = ''undefined''"
| "toString (Some (Str s)) = s"
| "toString (Some (Arr xs)) = join '','' (map (\<lambda>x. ''[object Object]'') xs)"

text \<open>\<open>entry.id == name\<close> with a string on the right: \<open>undefined\<close> equals no string.\<close>

fun looseEq :: "jsval option \<Rightarrow> string \<Rightarrow> bool" where
  "looseEq None s = False"
| "looseEq (Some v) s = (toString (Some v) = s)"

datatype exn = TypeError

text \<open>
  \<open>x.includes(s)\<close> on a metadata value: a \<open>TypeError\<close> on \<open>undefined\<close>, the substring
  test on a string, and on an array the membership test, which no string passes since the
  elements are objects.
\<close>

fun valIncludes :: "jsval option \<Rightarrow> string \<Rightarrow> exn + bool" where
  "valIncludes None s = Inl TypeError"
| "valIncludes (Some (Str t)) s = Inr (strIncludes t s)"
| "valIncludes (Some (Arr xs)) s = Inr False"

section \<open>preprocessPackageMetadata\<close>

text \<open>One dependency: \<open>dep.id + ':' + (dep.version || '') + ':'\<close>.\<close>

definition flatDep :: "attrs \<Rightarrow> string" where
  "flatDep dep =
     (case map_of dep ''id'' of None \<Rightarrow> ''undefined'' | Some i \<Rightarrow> i) @ '':'' @
     (case map_of dep ''version'' of None \<Rightarrow> [] | Some v \<Rightarrow> v) @ '':''"

text \<open>
  The value of \<open>_flat_deps\<close>.  A non-empty string under \<open>dependencies\<close> is truthy and has no
  \<open>map\<close> method: the call throws.
\<close>

fun flatDeps :: "jsval option \<Rightarrow> exn + string" where
  "flatDeps None = Inr []"
| "flatDeps (Some (Str s)) = (if s \<noteq> [] then Inl TypeError else Inr [])"
| "flatDeps (Some (Arr deps)) = Inr (join ''|'' (map flatDep deps))"

definition flatTags :: "jsval option \<Rightarrow> string" where
  "flatTags tags = (if truthy tags then '' '' @ toString tags @ '' '' else [])"

definition downloadUrl :: "string \<Rightarrow> jsval option \<Rightarrow> string" where
  "downloadUrl pfx ident = ''{EXPRESS_URL_ROOT}'' @ pfx @ ''download/'' @ toString ident"

text \<open>The body of the loop, on one entry.\<close>

definition preprocessEntry :: "string \<Rightarrow> PackageMetadata \<Rightarrow> exn + PackageMetadata" where
  "preprocessEntry pfx entry =
     (case flatDeps (props entry ''dependencies'') of
        Inl x \<Rightarrow> Inl x
      | Inr deps \<Rightarrow>
          let e1 = entry\<lparr>props := (props entry)(''_flat_deps'' \<mapsto> Str deps)\<rparr>;
              e2 = e1\<lparr>props := (props e1)(''_flat_tags'' \<mapsto> Str (flatTags (props e1 ''tags'')))\<rparr>
          in Inr (case nupkgData e2 of
                    None \<Rightarrow> e2
                  | Some buffer \<Rightarrow>
                      e2\<lparr>props := (props e2)(''url'' \<mapsto>
                             Str (downloadUrl pfx (props e2 ''id'')))\<rparr>))"

text \<open>The loop: the first entry that throws ends it.\<close>

fun preprocessPackageMetadata ::
    "string \<Rightarrow> PackageMetadata list \<Rightarrow> exn + PackageMetadata list" where
  "preprocessPackageMetadata pfx [] = Inr []"
| "preprocessPackageMetadata pfx (entry # rest) =
     (case preprocessEntry pfx entry of
        Inl x \<Rightarrow> Inl x
      | Inr entry' \<Rightarrow>
          (case preprocessPackageMetadata pfx rest of
             Inl x \<Rightarrow> Inl x
           | Inr rest' \<Rightarrow> Inr (entry' # rest')))"

section \<open>Regular expressions\<close>

text \<open>
  The patterns of the source are built from literal text and \<open>.*\<close> or \<open>.*?\<close>.  A
  matcher is a function from the input at a position to a result, \<open>None\<close> when it fails.
  \<open>.*\<close> before the rest \<open>k\<close> of a pattern is the backtracking matcher: the greedy one first
  consumes one more character (any but a line terminator) and falls back to \<open>k\<close> at the
  present position; the lazy one first tries \<open>k\<close> at the present position and falls back
  to consuming one more character.  The result carries the text that \<open>.*\<close> has consumed.
\<close>

fun greedy :: "(string \<Rightarrow> 'a option) \<Rightarrow> string \<Rightarrow> (string \<times> 'a) option" where
  "greedy k [] = map_option (Pair []) (k [])"
| "greedy k (c # cs) =
     (if isLineTerminator c then map_option (Pair []) (k (c # cs))
      else (case greedy k cs of
              Some (g, r) \<Rightarrow> Some (c # g, r)
            | None \<Rightarrow> map_option (Pair []) (k (c # cs))))"

fun lazy :: "(string \<Rightarrow> 'a option) \<Rightarrow> string \<Rightarrow> (string \<times> 'a) option" where
  "lazy k [] = map_option (Pair []) (k [])"
| "lazy k (c # cs) =
     (case k (c # cs) of
        Some r \<Rightarrow> Some ([], r)
      | None \<Rightarrow>
          if isLineTerminator c then None
          else (case lazy k cs of Some (g, r) \<Rightarrow> Some (c # g, r) | None \<Rightarrow> None))"

text \<open>Literal text at the start of the input; the result is the input after it.\<close>

definition literal :: "string \<Rightarrow> string \<Rightarrow> string option" where
  "literal lit s = (if prefix lit s then Some (drop (length lit) s) else None)"

text \<open>
  Under the flag \<open>i\<close> two characters match when their upper-case forms agree.  The
  literals of the source are ASCII, and no character outside ASCII has an ASCII letter as
  its canonical form, so the ASCII letters decide.
\<close>

definition upcase :: "char \<Rightarrow> char" where
  "upcase c =
     (case map_of (zip ''abcdefghijklmnopqrstuvwxyz'' ''ABCDEFGHIJKLMNOPQRSTUVWXYZ'') c of
        Some u \<Rightarrow> u
      | None \<Rightarrow> c)"

fun literalCI :: "string \<Rightarrow> string \<Rightarrow> string option" where
  "literalCI [] s = Some s"
| "literalCI (p # ps) [] = None"
| "literalCI (p # ps) (c # cs) = (if upcase c = upcase p then literalCI ps cs else None)"

text \<open>
  The search for the leftmost match: the anchored matcher \<open>m\<close> is tried at every position
  from the left; the result carries the text before the match.
\<close>

fun searchFrom :: "(string \<Rightarrow> 'a option) \<Rightarrow> string \<Rightarrow> string \<Rightarrow> (string \<times> 'a) option" where
  "searchFrom m pre [] = map_option (Pair pre) (m [])"
| "searchFrom m pre (c # cs) =
     (case m (c # cs) of
        Some r \<Rightarrow> Some (pre, r)
      | None \<Rightarrow> searchFrom m (pre @ [c]) cs)"

definition search :: "(string \<Rightarrow> 'a option) \<Rightarrow> string \<Rightarrow> (string \<times> 'a) option" where
  "search m s = searchFrom m [] s"

subsection \<open>filterForOnePackage and filterForManyPackages\<close>

text \<open>\<open>/tolower\(Id\) eq '(.*)'/i\<close> at a fixed position: the text of group 1.\<close>

definition matchOnePackage :: "string \<Rightarrow> string option" where
  "matchOnePackage s =
     (case literalCI (''tolower(Id) eq '' @ [quote]) s of
        None \<Rightarrow> None
      | Some rest \<Rightarrow> map_option fst (greedy (literalCI [quote]) rest))"

definition filterForOnePackage :: "string \<Rightarrow> string option" where
  "filterForOnePackage flt = map_option snd (search matchOnePackage flt)"

text \<open>\<open>/substringof\('(.*?)',tolower\(.*?\)\)/\<close> at a fixed position: the text of group 1.\<close>

definition matchManyPackages :: "string \<Rightarrow> string option" where
  "matchManyPackages s =
     (case literal (''substringof('' @ [quote]) s of
        None \<Rightarrow> None
      | Some rest \<Rightarrow>
          map_option fst
            (lazy (\<lambda>t. case literal ([quote] @ '',tolower('') t of
                        None \<Rightarrow> None
                      | Some u \<Rightarrow> lazy (literal ''))'') u)
               rest))"

definition filterForManyPackages :: "string \<Rightarrow> string option" where
  "filterForManyPackages flt = map_option snd (search matchManyPackages flt)"

text \<open>A result of \<open>match ? match[1] : null\<close> used as a condition: the empty string is falsy.\<close>

fun truthyMatch :: "string option \<Rightarrow> string option" where
  "truthyMatch None = None"
| "truthyMatch (Some s) = (if s = [] then None else Some s)"

subsection \<open>The quotes of the id parameter\<close>

text \<open>\<open>/'(.*)'/\<close> at a fixed position: group 1 and the text after the match.\<close>

definition matchQuoted :: "string \<Rightarrow> (string \<times> string) option" where
  "matchQuoted s =
     (case literal [quote] s of
        None \<Rightarrow> None
      | Some rest \<Rightarrow> greedy (literal [quote]) rest)"

text \<open>\<open>.replace(/'(.*)'/, '$1')\<close>: the first match gives way to its group 1.\<close>

definition stripQuotes :: "string \<Rightarrow> string" where
  "stripQuotes s =
     (case search matchQuoted s of
        None \<Rightarrow> s
      | Some (pre, g, post) \<Rightarrow> pre @ g @ post)"


section \<open>formatPackages\<close>

text \<open>
  The templates are read from files when the routes are configured.  The entry template is
  the file \<open>static/entry-template.atom\<close>, given here line by line, each line with its line
  feed; the other four are parameters of the model.
\<close>

definition entryTemplateLines :: "string list" where
  \<open>entryTemplateLines =
    [''  <entry>\<newline>'',
     ''    <id>https://choco-js-fake-data/package/{name}/{version}</id>\<newline>'',
     ''    <title type="text">{id}</title>\<newline>'',
     ''    <summary type="text">{summary}</summary>\<newline>'',
     ''    <author>\<newline>'',
     ''      <name>{authors}</name>\<newline>'',
     ''    </author>\<newline>'',
     ''    <content type="application/zip" src="{url}" />\<newline>'',
     ''    <summary type="text">{summary}</summary>\<newline>'',
     ''    <m:properties>\<newline>'',
     ''      <d:Version>{version}</d:Version>\<newline>'',
     ''      <d:Title>{title}</d:Title>\<newline>'',
     ''      <d:Description>{description}</d:Description>\<newline>'',
     ''      <d:Tags xml:space="preserve">{_flat_tags}</d:Tags>\<newline>'',
     ''      <d:Copyright>{copyright}</d:Copyright>\<newline>'',
     ''      <d:Dependencies>{_flat_deps}</d:Dependencies>\<newline>'',
     ''      <d:IconUrl>{iconUrl}</d:IconUrl>\<newline>'',
     ''      <d:IsLatestVersion m:type="Edm.Boolean">true</d:IsLatestVersion>\<newline>'',
     ''      <d:IsAbsoluteLatestVersion m:type="Edm.Boolean">true</d:IsAbsoluteLatestVersion>\<newline>'',
     ''      <d:IsPrerelease m:type="Edm.Boolean">false</d:IsPrerelease>\<newline>'',
     ''      <d:LicenseUrl>{licenseUrl}</d:LicenseUrl>\<newline>'',
     ''      <d:RequireLicenseAcceptance m:type="Edm.Boolean">{requireLicenseAcceptance}</d:RequireLicenseAcceptance>\<newline>'',
     ''      <d:ProjectUrl>{projectUrl}</d:ProjectUrl>\<newline>'',
     ''      <d:ReleaseNotes>{releaseNotes}</d:ReleaseNotes>\<newline>'',
     ''      <d:ProjectSourceUrl>{projectSourceUrl}</d:ProjectSourceUrl>\<newline>'',
     ''      <d:PackageSourceUrl>{packageSourceUrl}</d:PackageSourceUrl>\<newline>'',
     ''      <d:DocsUrl>{docsUrl}</d:DocsUrl>\<newline>'',
     ''      <d:MailingListUrl>{mailingListUrl}</d:MailingListUrl>\<newline>'',
     ''      <d:BugTrackerUrl>{bugTrackerUrl}</d:BugTrackerUrl>\<newline>'',
     ''    </m:properties>\<newline>'',
     ''  </entry>\<newline>'']\<close>

definition entryTemplate :: string where
  "entryTemplate = concat entryTemplateLines"

record templates =
  rootAtom :: string
  metadataAtom :: string
  errorAtom :: string
  packagesTemplate :: string

text \<open>
  Of a request the handlers read \<open>req.protocol\<close>, \<open>req.get('host')\<close>, the query
  parameters \<open>$filter\<close> and \<open>id\<close>, and the path parameter \<open>name\<close>.  A query parameter is
  absent, a string, or (a repeated or bracketed key) an array or an object, which has
  neither a \<open>match\<close> nor a \<open>replace\<close> method.
\<close>

datatype qparam = QAbsent | QString string | QOther

record request =
  protocol :: string
  host :: "string option"
  filterParam :: qparam
  idParam :: qparam
  nameParam :: string

text \<open>\<open>/{(.*)}/\<close> at a fixed position: group 1 and the text after the match.\<close>

definition matchBraces :: "string \<Rightarrow> (string \<times> string) option" where
  "matchBraces s =
     (case literal ''{'' s of
        None \<Rightarrow> None
      | Some rest \<Rightarrow> greedy (literal ''}'') rest)"

lemma greedy_length: "greedy k s = Some (g, r) \<Longrightarrow> \<exists>t. k t = Some r \<and> length t \<le> length s"
proof (induction s arbitrary: g)
  case Nil
  then show ?case by auto
next
  case (Cons c cs)
  show ?case
  proof (cases "isLineTerminator c \<or> greedy k cs = None")
    case True
    with Cons.prems have "k (c # cs) = Some r" by (auto split: if_splits)
    then show ?thesis by blast
  next
    case False
    with Cons.prems obtain g' where "greedy k cs = Some (g', r)" by (auto split: if_splits)
    from Cons.IH[OF this] show ?thesis by auto
  qed
qed

lemma literal_length: "literal lit s = Some r \<Longrightarrow> length r + length lit = length s"
  by (auto simp: literal_def prefix_def split: if_splits)

lemma matchBraces_shorter:
  assumes "matchBraces s = Some (key, rest)"
  shows "length rest < length s"
proof -
  from assms obtain s' where 1: "literal ''{'' s = Some s'"
    and 2: "greedy (literal ''}'') s' = Some (key, rest)"
    by (auto simp: matchBraces_def split: option.splits)
  from greedy_length[OF 2] obtain t where "literal ''}'' t = Some rest" "length t \<le> length s'"
    by blast
  with literal_length[OF 1] literal_length[of "''}''" t rest] show ?thesis by simp
qed

text \<open>
  \<open>template.replace(/{(.*)}/g, f)\<close>, where \<open>f\<close> is given group 1: every match, from the
  left, gives way to the result of \<open>f\<close>, and the search goes on after the match.
\<close>

function replaceBraces :: "(string \<Rightarrow> string) \<Rightarrow> string \<Rightarrow> string" where
  "replaceBraces f [] = []"
| "replaceBraces f (c # cs) =
     (case matchBraces (c # cs) of
        Some (key, rest) \<Rightarrow> f key @ replaceBraces f rest
      | None \<Rightarrow> c # replaceBraces f cs)"
  by pat_completeness auto
termination
  by (relation "measure (\<lambda>(f, s). length s)") (auto dest: matchBraces_shorter)

text \<open>
  The callback \<open>(match, key) => entry[key] || ''\<close>, its result converted to a string.  The
  keys it is given are the keys of the entry template (lemma \<open>entryTemplate_keys\<close>): none
  is \<open>nupkgData\<close> and none names a property that an object inherits, so the entry's own
  metadata keys decide.
\<close>

definition substitute :: "PackageMetadata \<Rightarrow> string \<Rightarrow> string" where
  "substitute entry key = (if truthy (props entry key) then toString (props entry key) else [])"

text \<open>The keys that the callback is given on a template, in order.\<close>

function templateKeys :: "string \<Rightarrow> string list" where
  "templateKeys [] = []"
| "templateKeys (c # cs) =
     (case matchBraces (c # cs) of
        Some (key, rest) \<Rightarrow> key # templateKeys rest
      | None \<Rightarrow> templateKeys cs)"
  by pat_completeness auto
termination
  by (relation "measure length") (auto dest: matchBraces_shorter)

text \<open>
  The replacement text of \<open>replace\<close> with a string: \<open>$$\<close> is a dollar sign, \<open>$&\<close> the
  match, \<open>$`\<close> the text before it and \<open>$'\<close> the text after it.  The two patterns below have
  no group, so a dollar sign before a digit or \<open><\<close> stands for itself.
\<close>

fun getSubstitution :: "string \<Rightarrow> string \<Rightarrow> string \<Rightarrow> string \<Rightarrow> string" where
  "getSubstitution matched pre post (c # d # r) =
     (if c = CHR ''$'' \<and> d = CHR ''$'' then CHR ''$'' # getSubstitution matched pre post r
      else if c = CHR ''$'' \<and> d = CHR ''&'' then matched @ getSubstitution matched pre post r
      else if c = CHR ''$'' \<and> d = CHR 0x60 then pre @ getSubstitution matched pre post r
      else if c = CHR ''$'' \<and> d = quote then post @ getSubstitution matched pre post r
      else c # getSubstitution matched pre post (d # r))"
| "getSubstitution matched pre post r = r"

text \<open>
  \<open>replace\<close> with a pattern that is literal text (not empty) and a replacement string:
  every match when the pattern has the flag \<open>g\<close>, the first match otherwise.  \<open>pre\<close> is
  the text already passed.
\<close>

function replaceLiteral :: "bool \<Rightarrow> string \<Rightarrow> string \<Rightarrow> string \<Rightarrow> string \<Rightarrow> string" where
  "replaceLiteral g pat repl pre [] = []"
| "replaceLiteral g pat repl pre (c # cs) =
     (if pat \<noteq> [] \<and> prefix pat (c # cs) then
        getSubstitution pat pre (drop (length pat) (c # cs)) repl @
        (if g then replaceLiteral g pat repl (pre @ pat) (drop (length pat) (c # cs))
         else drop (length pat) (c # cs))
      else c # replaceLiteral g pat repl (pre @ [c]) cs)"
  by pat_completeness auto
termination
  by (relation "measure (\<lambda>(g, pat, repl, pre, s). length s)") (auto simp: neq_Nil_conv)

definition renderEntry :: "PackageMetadata \<Rightarrow> string" where
  "renderEntry entry = replaceBraces (substitute entry) entryTemplate"

definition urlRoot :: "request \<Rightarrow> string" where
  "urlRoot req = protocol req @ ''://'' @ (case host req of None \<Rightarrow> ''undefined'' | Some h \<Rightarrow> h)"

definition formatPackages :: "templates \<Rightarrow> PackageMetadata list \<Rightarrow> request \<Rightarrow> string" where
  "formatPackages t matchedPackages req =
     (let entries = map renderEntry matchedPackages;
          url_root = urlRoot req
      in replaceLiteral False ''{EXPRESS_URL_ROOT}'' url_root []
           (replaceLiteral True (''{entries}'' @ [CHR 0x0A]) (join [] entries) []
              (packagesTemplate t)))"


section \<open>The routes\<close>

definition ATOM_MIME_TYPE :: string where
  "ATOM_MIME_TYPE = ''application/atom+xml; charset=utf-8''"

definition BINARY_MIME_TYPE :: string where
  "BINARY_MIME_TYPE = ''application/octet-stream''"

text \<open>
  A response: the status (200 unless the handler sets one), the content type when the
  handler sets one, and what it sends.  \<open>res.send(undefined)\<close> sends no body.
\<close>

datatype payload = Text string | Binary bytes | NoBody

record response =
  status :: nat
  contentType :: "string option"
  body :: payload

text \<open>
  The wrapper \<open>get\<close> around every handler: an exception thrown by the handler is caught and
  answered with status 500 and the text \<open>Exception!\<close>.  No handler below sets a header
  before a statement that can throw.
\<close>

definition get :: "(request \<Rightarrow> exn + response) \<Rightarrow> request \<Rightarrow> response" where
  "get handler req =
     (case handler req of
        Inr res \<Rightarrow> res
      | Inl error \<Rightarrow> \<lparr>status = 500, contentType = None, body = Text ''Exception!''\<rparr>)"

definition feed :: "templates \<Rightarrow> PackageMetadata list \<Rightarrow> request \<Rightarrow> response" where
  "feed t matchedPackages req =
     \<lparr>status = 200, contentType = Some ATOM_MIME_TYPE,
      body = Text (formatPackages t matchedPackages req)\<rparr>"

definition rootHandler :: "templates \<Rightarrow> request \<Rightarrow> exn + response" where
  "rootHandler t req = Inr \<lparr>status = 200, contentType = Some ATOM_MIME_TYPE, body = Text (rootAtom t)\<rparr>"

definition metadataHandler :: "templates \<Rightarrow> request \<Rightarrow> exn + response" where
  "metadataHandler t req =
     Inr \<lparr>status = 200, contentType = Some ATOM_MIME_TYPE, body = Text (metadataAtom t)\<rparr>"

text \<open>
  The callback of the search filter.  \<open>||\<close> evaluates its right operand only when the left
  one is false.
\<close>

definition substringMatches :: "string \<Rightarrow> PackageMetadata \<Rightarrow> exn + bool" where
  "substringMatches substring entry =
     (case valIncludes (props entry ''id'') substring of
        Inl x \<Rightarrow> Inl x
      | Inr True \<Rightarrow> Inr True
      | Inr False \<Rightarrow>
          (case valIncludes (props entry ''summary'') substring of
             Inl x \<Rightarrow> Inl x
           | Inr True \<Rightarrow> Inr True
           | Inr False \<Rightarrow> valIncludes (props entry ''_flat_tags'') ('' '' @ substring @ '' '')))"

text \<open>\<open>Array.prototype.filter\<close> with a callback that may throw.\<close>

fun filterThrowing :: "('a \<Rightarrow> exn + bool) \<Rightarrow> 'a list \<Rightarrow> exn + 'a list" where
  "filterThrowing p [] = Inr []"
| "filterThrowing p (x # xs) =
     (case p x of
        Inl e \<Rightarrow> Inl e
      | Inr b \<Rightarrow>
          (case filterThrowing p xs of
             Inl e \<Rightarrow> Inl e
           | Inr ys \<Rightarrow> Inr (if b then x # ys else ys)))"

text \<open>
  The handler of \<open>Packages()\<close>.  Its first part computes the local variable
  \<open>matchedPackages\<close>, or finds the filter unrecognized, or throws; its second part sends
  the response.
\<close>

datatype selection = Matched "PackageMetadata list" | Unrecognized

definition selectPackages :: "PackageMetadata list \<Rightarrow> request \<Rightarrow> exn + selection" where
  "selectPackages packageMetadataList req =
     (case filterParam req of
        QAbsent \<Rightarrow> Inl TypeError
      | QOther \<Rightarrow> Inl TypeError
      | QString flt \<Rightarrow>
          (case truthyMatch (filterForOnePackage flt) of
             Some name \<Rightarrow>
               Inr (Matched (filter (\<lambda>entry. looseEq (props entry ''id'') name)
                               packageMetadataList))
           | None \<Rightarrow>
               (case truthyMatch (filterForManyPackages flt) of
                  Some substring \<Rightarrow>
                    (case filterThrowing (substringMatches substring) packageMetadataList of
                       Inl x \<Rightarrow> Inl x
                     | Inr matchedPackages \<Rightarrow> Inr (Matched matchedPackages))
                | None \<Rightarrow> Inr Unrecognized)))"

definition packagesHandler ::
    "templates \<Rightarrow> PackageMetadata list \<Rightarrow> request \<Rightarrow> exn + response" where
  "packagesHandler t packageMetadataList req =
     (case selectPackages packageMetadataList req of
        Inl x \<Rightarrow> Inl x
      | Inr (Matched matchedPackages) \<Rightarrow> Inr (feed t matchedPackages req)
      | Inr Unrecognized \<Rightarrow>
          Inr \<lparr>status = 400, contentType = Some ATOM_MIME_TYPE, body = Text (errorAtom t)\<rparr>)"

text \<open>
  The handler of \<open>FindPackagesById()\<close>, in the same two parts.
  \<open>(req.query['id'] || '')\<close> is the empty string for an absent parameter.
\<close>

definition selectById :: "PackageMetadata list \<Rightarrow> request \<Rightarrow> exn + PackageMetadata list" where
  "selectById packageMetadataList req =
     (case idParam req of
        QOther \<Rightarrow> Inl TypeError
      | QAbsent \<Rightarrow>
          Inr (filter (\<lambda>entry. looseEq (props entry ''id'') (stripQuotes []))
                 packageMetadataList)
      | QString s \<Rightarrow>
          Inr (filter (\<lambda>entry. looseEq (props entry ''id'') (stripQuotes s))
                 packageMetadataList))"

definition findPackagesByIdHandler ::
    "templates \<Rightarrow> PackageMetadata list \<Rightarrow> request \<Rightarrow> exn + response" where
  "findPackagesByIdHandler t packageMetadataList req =
     (case selectById packageMetadataList req of
        Inl x \<Rightarrow> Inl x
      | Inr matchedPackages \<Rightarrow> Inr (feed t matchedPackages req))"

definition downloadHandler :: "PackageMetadata list \<Rightarrow> request \<Rightarrow> exn + response" where
  "downloadHandler packageMetadataList req =
     (case find (\<lambda>entry. looseEq (props entry ''id'') (nameParam req)) packageMetadataList of
        Some matchedPackage \<Rightarrow>
          Inr \<lparr>status = 200, contentType = Some BINARY_MIME_TYPE,
               body = (case nupkgData matchedPackage of None \<Rightarrow> NoBody | Some b \<Rightarrow> Binary b)\<rparr>
      | None \<Rightarrow> Inr \<lparr>status = 404, contentType = None, body = Text ''Not found''\<rparr>)"

section \<open>configureRoutes\<close>

definition normalizePrefix :: "string \<Rightarrow> string" where
  "normalizePrefix pfx =
     (let p1 = (if startsWith pfx ''/'' then pfx else ''/'' @ pfx)
      in if endsWith p1 ''/'' then p1 else p1 @ ''/'')"

text \<open>
  What \<open>configureRoutes\<close> leaves behind: the templates and the preprocessed list that the
  handlers close over.  An exception of the preprocessing rejects the promise, and no
  route is added.
\<close>

record server =
  serverTemplates :: templates
  packageMetadataList :: "PackageMetadata list"

definition configureRoutes :: "templates \<Rightarrow> string \<Rightarrow> PackageMetadata list \<Rightarrow> exn + server" where
  "configureRoutes t pfx packages =
     (case preprocessPackageMetadata (normalizePrefix pfx) packages of
        Inl x \<Rightarrow> Inl x
      | Inr list \<Rightarrow> Inr \<lparr>serverTemplates = t, packageMetadataList = list\<rparr>)"

datatype route = ServiceRoot | MetadataDocument | Packages | FindPackagesById | Download

fun serve :: "server \<Rightarrow> route \<Rightarrow> request \<Rightarrow> response" where
  "serve srv ServiceRoot req = get (rootHandler (serverTemplates srv)) req"
| "serve srv MetadataDocument req = get (metadataHandler (serverTemplates srv)) req"
| "serve srv Packages req =
     get (packagesHandler (serverTemplates srv) (packageMetadataList srv)) req"
| "serve srv FindPackagesById req =
     get (findPackagesByIdHandler (serverTemplates srv) (packageMetadataList srv)) req"
| "serve srv Download req = get (downloadHandler (packageMetadataList srv)) req"

section \<open>The format of the derived fields, in the words of the specification\<close>




text \<open>
  The entries whose \<open>dependencies\<close> the loop can flatten: the key is absent, or holds the
  empty text or an array.
\<close>

definition dependenciesUsable :: "PackageMetadata \<Rightarrow> bool" where
  "dependenciesUsable entry =
     (case props entry ''dependencies'' of Some (Str s) \<Rightarrow> s = [] | Some (Arr xs) \<Rightarrow> True | None \<Rightarrow> True)"

section \<open>What the two filter patterns accept\<close>

text \<open>
  The shapes, as sets of strings.  The exact-id shape: somewhere in the filter stands, in
  any case of the letters, the text \<open>tolower(Id) eq '\<close>, then characters of one line, then a
  quote.  The substring shape: somewhere stands \<open>substringof('\<close>, characters of one line,
  \<open>',tolower(\<close>, characters of one line, and \<open>))\<close>.
\<close>

definition oneLine :: "string \<Rightarrow> bool" where
  "oneLine g = list_all (\<lambda>c. \<not> isLineTerminator c) g"

definition exactIdShape :: "string \<Rightarrow> bool" where
  "exactIdShape flt =
     (\<exists>p a g r. flt = p @ a @ g @ [quote] @ r \<and>
        map upcase a = map upcase (''tolower(Id) eq '' @ [quote]) \<and> oneLine g)"

definition substringShape :: "string \<Rightarrow> bool" where
  "substringShape flt =
     (\<exists>p g h r. flt = p @ ''substringof('' @ [quote] @ g @ [quote] @ '',tolower('' @ h @ ''))'' @ r \<and>
        oneLine g \<and> oneLine h)"

section \<open>The filters of the client\<close>

text \<open>
  The two filters that the source quotes from the Chocolatey client: the one of an install
  or upgrade, and the one of a search.
\<close>

definition installFilter :: "string \<Rightarrow> string" where
  "installFilter name = ''(tolower(Id) eq '' @ [quote] @ name @ [quote] @ '') and IsLatestVersion''"

definition searchFilter :: "string \<Rightarrow> string" where
  "searchFilter s =
     ''(((Id ne null) and substringof('' @ [quote] @ s @ [quote] @ '',tolower(Id))) or '' @
     ''((Description ne null) and substringof('' @ [quote] @ s @ [quote] @
       '',tolower(Description)))) or '' @
     ''((Tags ne null) and substringof('' @ [quote] @ '' '' @ s @ '' '' @ [quote] @
       '',tolower(Tags)))''"

text \<open>Templates and a request for the examples.\<close>

definition exampleTemplates :: templates where
  "exampleTemplates =
     \<lparr>rootAtom = ''<service/>'', metadataAtom = ''<edmx/>'', errorAtom = ''<error/>'',
      packagesTemplate = ''<feed>\<newline>{entries}\<newline></feed>\<newline>''\<rparr>"

definition exampleRequest :: request where
  "exampleRequest =
     \<lparr>protocol = ''http'', host = Some ''localhost:8000'', filterParam = QAbsent,
      idParam = QAbsent, nameParam = []\<rparr>"

text \<open>Two packages as \<open>readPackageMetadata\<close> returns them, each with its archive.\<close>

definition packageA :: PackageMetadata where
  "packageA =
     \<lparr>props = [''id'' \<mapsto> Str ''pkg-a'', ''version'' \<mapsto> Str ''1.0'', ''summary'' \<mapsto> Str ''first'',
               ''tags'' \<mapsto> Str ''foobar baz''],
      nupkgData = Some [80, 75, 3, 4]\<rparr>"

definition packageB :: PackageMetadata where
  "packageB =
     \<lparr>props = [''id'' \<mapsto> Str ''pkg-b'', ''version'' \<mapsto> Str ''2.0'', ''summary'' \<mapsto> Str ''second''],
      nupkgData = Some [80, 75, 5, 6]\<rparr>"

text \<open>The two packages after the preprocessing under the prefix \<open>/\<close>.\<close>

definition preprocessedA :: PackageMetadata where
  "preprocessedA =
     \<lparr>props = (props packageA)
               (''_flat_deps'' \<mapsto> Str [], ''_flat_tags'' \<mapsto> Str '' foobar baz '',
                ''url'' \<mapsto> Str ''{EXPRESS_URL_ROOT}/download/pkg-a''),
      nupkgData = nupkgData packageA\<rparr>"

definition preprocessedB :: PackageMetadata where
  "preprocessedB =
     \<lparr>props = (props packageB)
               (''_flat_deps'' \<mapsto> Str [], ''_flat_tags'' \<mapsto> Str [],
                ''url'' \<mapsto> Str ''{EXPRESS_URL_ROOT}/download/pkg-b''),
      nupkgData = nupkgData packageB\<rparr>"

section \<open>What the search matches, as properties of a record\<close>

text \<open>A metadata value is a string that contains \<open>s\<close>.\<close>

definition valContains :: "jsval option \<Rightarrow> string \<Rightarrow> bool" where
  "valContains v s = (valIncludes v s = Inr True)"

text \<open>
  The record's id contains \<open>s\<close>, or its summary contains \<open>s\<close>, or its \<open>_flat_tags\<close>
  contains \<open>s\<close> between two spaces, that is, as a whole tag.
\<close>

definition wholeTagMatch :: "string \<Rightarrow> PackageMetadata \<Rightarrow> bool" where
  "wholeTagMatch s entry =
     (valContains (props entry ''id'') s \<or> valContains (props entry ''summary'') s \<or>
      valContains (props entry ''_flat_tags'') ('' '' @ s @ '' ''))"

text \<open>
  The test of the search can be evaluated on a record: the record has an id; it has a
  summary unless its id contains \<open>s\<close>; it has \<open>_flat_tags\<close> unless its id or its summary
  contains \<open>s\<close>.
\<close>

definition evaluable :: "string \<Rightarrow> PackageMetadata \<Rightarrow> bool" where
  "evaluable s entry =
     (props entry ''id'' \<noteq> None \<and>
      (valContains (props entry ''id'') s \<or>
       props entry ''summary'' \<noteq> None \<and>
       (valContains (props entry ''summary'') s \<or> props entry ''_flat_tags'' \<noteq> None)))"

text \<open>
  The request is recognized as a substring filter with the operand \<open>s\<close>: the filter is a
  string from which the exact-id pattern extracts no name (or the empty one) and the
  substring pattern extracts \<open>s\<close>, which is not empty.
\<close>

definition takesSubstringBranch :: "request \<Rightarrow> string \<Rightarrow> bool" where
  "takesSubstringBranch req s =
     (case filterParam req of
        QString flt \<Rightarrow>
          truthyMatch (filterForOnePackage flt) = None \<and>
          truthyMatch (filterForManyPackages flt) = Some s
      | QAbsent \<Rightarrow> False
      | QOther \<Rightarrow> False)"

text \<open>More examples: the search request of the client, and records without a summary.\<close>

definition searchRequest :: "string \<Rightarrow> request" where
  "searchRequest s = exampleRequest\<lparr>filterParam := QString (searchFilter s)\<rparr>"

definition preprocessedC :: PackageMetadata where
  "preprocessedC =
     \<lparr>props = [''id'' \<mapsto> Str ''foobar'', ''_flat_deps'' \<mapsto> Str [], ''_flat_tags'' \<mapsto> Str []],
      nupkgData = None\<rparr>"

definition preprocessedD :: PackageMetadata where
  "preprocessedD =
     \<lparr>props = [''id'' \<mapsto> Str ''other'', ''_flat_deps'' \<mapsto> Str [], ''_flat_tags'' \<mapsto> Str []],
      nupkgData = None\<rparr>"

text \<open>A record whose id has a line break, and a record with a name and a version.\<close>

definition packageL :: PackageMetadata where
  "packageL = \<lparr>props = [''id'' \<mapsto> Str ''a\<newline>b''], nupkgData = None\<rparr>"

definition packageN :: PackageMetadata where
  "packageN =
     \<lparr>props = [''id'' \<mapsto> Str ''pkg-n'', ''name'' \<mapsto> Str ''pkg-n'', ''version'' \<mapsto> Str ''1.0''],
      nupkgData = None\<rparr>"

text \<open>The record with the line break in its id, after the preprocessing.\<close>

definition preprocessedL :: PackageMetadata where
  "preprocessedL =
     \<lparr>props = (props packageL)(''_flat_deps'' \<mapsto> Str [], ''_flat_tags'' \<mapsto> Str []),
      nupkgData = nupkgData packageL\<rparr>"

text \<open>
  Three records for the preprocessing: one with two dependencies (the second without a
  version) and two tags, one whose \<open>dependencies\<close> and \<open>tags\<close> elements are empty, and one
  that has neither element.
\<close>

definition packageP :: PackageMetadata where
  "packageP =
     \<lparr>props = [''id'' \<mapsto> Str ''pkg-p'',
               ''dependencies'' \<mapsto> Arr [[(''id'', ''a''), (''version'', ''1.0'')], [(''id'', ''b'')]],
               ''tags'' \<mapsto> Str ''foo bar''],
      nupkgData = None\<rparr>"

definition packageQ :: PackageMetadata where
  "packageQ =
     \<lparr>props = [''id'' \<mapsto> Str ''pkg-q'', ''dependencies'' \<mapsto> Str [], ''tags'' \<mapsto> Str []],
      nupkgData = None\<rparr>"

definition packageR :: PackageMetadata where
  "packageR = \<lparr>props = [''id'' \<mapsto> Str ''pkg-r''], nupkgData = None\<rparr>"

section \<open>The matchers accept exactly the two shapes\<close>

lemma greedy_Some:
  "greedy k s = Some (g, r) \<Longrightarrow> \<exists>t. s = g @ t \<and> oneLine g \<and> k t = Some r"
proof (induction s arbitrary: g)
  case Nil
  then show ?case by (auto simp: oneLine_def)
next
  case (Cons c cs)
  show ?case
  proof (cases "isLineTerminator c \<or> greedy k cs = None")
    case True
    with Cons.prems have "g = []" "k (c # cs) = Some r" by (auto split: if_splits)
    then show ?thesis by (simp add: oneLine_def)
  next
    case False
    with Cons.prems obtain g' where g': "greedy k cs = Some (g', r)" "g = c # g'"
      by (auto split: if_splits)
    from Cons.IH[OF g'(1)] obtain t where "cs = g' @ t" "oneLine g'" "k t = Some r" by blast
    with False g'(2) show ?thesis by (intro exI[of _ t]) (simp add: oneLine_def)
  qed
qed

lemma lazy_Some:
  "lazy k s = Some (g, r) \<Longrightarrow> \<exists>t. s = g @ t \<and> oneLine g \<and> k t = Some r"
proof (induction s arbitrary: g)
  case Nil
  then show ?case by (auto simp: oneLine_def)
next
  case (Cons c cs)
  show ?case
  proof (cases "k (c # cs)")
    case (Some r')
    with Cons.prems have "g = []" "r' = r" by auto
    with Some show ?thesis by (simp add: oneLine_def)
  next
    case None
    with Cons.prems obtain g' where g': "\<not> isLineTerminator c" "lazy k cs = Some (g', r)" "g = c # g'"
      by (auto split: if_splits option.splits)
    from Cons.IH[OF g'(2)] obtain t where "cs = g' @ t" "oneLine g'" "k t = Some r" by blast
    with g'(1,3) show ?thesis by (intro exI[of _ t]) (simp add: oneLine_def)
  qed
qed

lemma greedy_complete: "oneLine g \<Longrightarrow> k t \<noteq> None \<Longrightarrow> greedy k (g @ t) \<noteq> None"
proof (induction g)
  case Nil
  then show ?case by (cases t) (auto split: option.splits)
next
  case (Cons c g)
  then show ?case by (auto simp: oneLine_def split: option.splits)
qed

lemma lazy_complete: "oneLine g \<Longrightarrow> k t \<noteq> None \<Longrightarrow> lazy k (g @ t) \<noteq> None"
proof (induction g)
  case Nil
  then show ?case by (cases t) (auto split: option.splits)
next
  case (Cons c g)
  then show ?case by (auto simp: oneLine_def split: option.splits)
qed

lemma literal_Some: "literal lit s = Some r \<longleftrightarrow> s = lit @ r"
  by (auto simp: literal_def prefix_def)

lemma literalCI_iff:
  "literalCI lit s = Some r \<longleftrightarrow> (\<exists>a. s = a @ r \<and> map upcase a = map upcase lit)"
proof (induction lit s rule: literalCI.induct)
  case (1 s)
  show ?case by simp
next
  case (2 p ps)
  show ?case by simp
next
  case (3 p ps c cs)
  show ?case
  proof (cases "upcase c = upcase p")
    case True
    have "(\<exists>a. c # cs = a @ r \<and> map upcase a = map upcase (p # ps)) \<longleftrightarrow>
          (\<exists>a. cs = a @ r \<and> map upcase a = map upcase ps)"
    proof
      assume "\<exists>a. c # cs = a @ r \<and> map upcase a = map upcase (p # ps)"
      then obtain a where a: "c # cs = a @ r" "map upcase a = map upcase (p # ps)" by blast
      from a(2) obtain x a' where "a = x # a'" by (cases a) auto
      with a show "\<exists>a. cs = a @ r \<and> map upcase a = map upcase ps" by auto
    next
      assume "\<exists>a. cs = a @ r \<and> map upcase a = map upcase ps"
      then obtain a where "cs = a @ r" "map upcase a = map upcase ps" by blast
      with True show "\<exists>a. c # cs = a @ r \<and> map upcase a = map upcase (p # ps)"
        by (intro exI[of _ "c # a"]) simp
    qed
    with True 3 show ?thesis by simp
  next
    case False
    have "\<not> (\<exists>a. c # cs = a @ r \<and> map upcase a = map upcase (p # ps))"
    proof
      assume "\<exists>a. c # cs = a @ r \<and> map upcase a = map upcase (p # ps)"
      then obtain a where a: "c # cs = a @ r" "map upcase a = map upcase (p # ps)" by blast
      from a(2) obtain x a' where "a = x # a'" by (cases a) auto
      with a False show False by auto
    qed
    with False show ?thesis by simp
  qed
qed

lemma literalCI_Some:
  "literalCI lit s = Some r \<Longrightarrow> \<exists>a. s = a @ r \<and> map upcase a = map upcase lit"
  by (simp add: literalCI_iff)

lemma upcase_quote: "upcase q = quote \<longleftrightarrow> q = quote"
proof (cases "map_of (zip ''abcdefghijklmnopqrstuvwxyz'' ''ABCDEFGHIJKLMNOPQRSTUVWXYZ'') q")
  case None
  then show ?thesis by (auto simp: upcase_def quote_def)
next
  case (Some u)
  then have "(q, u) \<in> set (zip ''abcdefghijklmnopqrstuvwxyz'' ''ABCDEFGHIJKLMNOPQRSTUVWXYZ'')"
    by (rule map_of_SomeD)
  then have "u \<noteq> quote \<and> q \<noteq> quote" unfolding quote_def by auto
  with Some show ?thesis by (simp add: upcase_def)
qed

lemma literalCI_quote: "literalCI [quote] t = Some u \<longleftrightarrow> t = quote # u"
proof (cases t)
  case Nil
  then show ?thesis by simp
next
  case (Cons c cs)
  have "upcase c = upcase quote \<longleftrightarrow> c = quote"
    using upcase_quote[of c] upcase_quote[of quote] by simp
  with Cons show ?thesis by auto
qed

lemma searchFrom_Some:
  "searchFrom m pre s = Some (b, r) \<Longrightarrow> \<exists>p u. s = p @ u \<and> b = pre @ p \<and> m u = Some r"
proof (induction s arbitrary: pre)
  case Nil
  then show ?case by auto
next
  case (Cons c cs)
  show ?case
  proof (cases "m (c # cs)")
    case (Some r')
    with Cons.prems have "b = pre" "r' = r" by auto
    with Some show ?thesis by (intro exI[of _ "[]"] exI[of _ "c # cs"]) simp
  next
    case None
    with Cons.prems have "searchFrom m (pre @ [c]) cs = Some (b, r)" by simp
    from Cons.IH[OF this] obtain p u where "cs = p @ u" "b = (pre @ [c]) @ p" "m u = Some r"
      by blast
    then show ?thesis by (intro exI[of _ "c # p"] exI[of _ u]) simp
  qed
qed

lemma search_Some:
  "search m s = Some (b, r) \<Longrightarrow> \<exists>u. s = b @ u \<and> m u = Some r"
  unfolding search_def using searchFrom_Some[of m "[]" s b r] by auto

lemma matchOnePackage_Some:
  assumes "matchOnePackage s = Some g"
  shows "\<exists>a r. s = a @ g @ [quote] @ r \<and>
           map upcase a = map upcase (''tolower(Id) eq '' @ [quote]) \<and> oneLine g"
proof -
  from assms obtain rest u where
    l: "literalCI (''tolower(Id) eq '' @ [quote]) s = Some rest" and
    f: "greedy (literalCI [quote]) rest = Some (g, u)"
    by (auto simp: matchOnePackage_def split: option.splits)
  from greedy_Some[OF f] obtain t where t: "rest = g @ t" "oneLine g" "literalCI [quote] t = Some u"
    by blast
  from t(3) have "t = [quote] @ u" by (simp add: literalCI_quote)
  moreover from literalCI_Some[OF l] obtain a where
    "s = a @ rest" "map upcase a = map upcase (''tolower(Id) eq '' @ [quote])"
    by blast
  ultimately show ?thesis using t(1,2) by (intro exI[of _ a] exI[of _ u]) simp
qed

lemma filterForOnePackage_shape: "filterForOnePackage flt = Some g \<Longrightarrow> exactIdShape flt"
proof -
  assume "filterForOnePackage flt = Some g"
  then obtain b where "search matchOnePackage flt = Some (b, g)"
    by (auto simp: filterForOnePackage_def)
  from search_Some[OF this] obtain u where u: "flt = b @ u" "matchOnePackage u = Some g"
    by blast
  from matchOnePackage_Some[OF u(2)] obtain a r where
    "u = a @ g @ [quote] @ r" "map upcase a = map upcase (''tolower(Id) eq '' @ [quote])" "oneLine g"
    by blast
  with u(1) show ?thesis
    unfolding exactIdShape_def by (intro exI[of _ b] exI[of _ a] exI[of _ g] exI[of _ r]) simp
qed

lemma matchManyPackages_Some:
  assumes "matchManyPackages s = Some g"
  shows "\<exists>h r. s = ''substringof('' @ [quote] @ g @ [quote] @ '',tolower('' @ h @ ''))'' @ r \<and>
           oneLine g \<and> oneLine h"
proof -
  let ?k = "\<lambda>t. case literal ([quote] @ '',tolower('') t of
                        None \<Rightarrow> None
                      | Some u \<Rightarrow> lazy (literal ''))'') u"
  from assms obtain rest x where
    l: "literal (''substringof('' @ [quote]) s = Some rest" and
    f: "lazy ?k rest = Some (g, x)"
    by (auto simp: matchManyPackages_def split: option.splits)
  from lazy_Some[OF f] obtain t where t: "rest = g @ t" "oneLine g" "?k t = Some x"
    by blast
  from t(3) obtain u where u: "literal ([quote] @ '',tolower('') t = Some u"
    and f2: "lazy (literal ''))'') u = Some x"
    by (auto split: option.splits)
  obtain h w where x: "x = (h, w)" by (cases x)
  from lazy_Some[OF f2[unfolded x]] obtain v where v: "u = h @ v" "oneLine h" "literal ''))'' v = Some w"
    by blast
  from l have 1: "s = (''substringof('' @ [quote]) @ rest" by (simp only: literal_Some)
  from u have 2: "t = ([quote] @ '',tolower('') @ u" by (simp only: literal_Some)
  from v(3) have 3: "v = ''))'' @ w" by (simp only: literal_Some)
  show ?thesis
    using 1 2 3 t(1,2) v(1,2) by (intro exI[of _ h] exI[of _ w]) simp
qed

lemma filterForManyPackages_shape: "filterForManyPackages flt = Some g \<Longrightarrow> substringShape flt"
proof -
  assume "filterForManyPackages flt = Some g"
  then obtain b where "search matchManyPackages flt = Some (b, g)"
    by (auto simp: filterForManyPackages_def)
  from search_Some[OF this] obtain u where u: "flt = b @ u" "matchManyPackages u = Some g"
    by blast
  from matchManyPackages_Some[OF u(2)] obtain h r where
    "u = ''substringof('' @ [quote] @ g @ [quote] @ '',tolower('' @ h @ ''))'' @ r"
    "oneLine g" "oneLine h"
    by blast
  with u(1) show ?thesis
    unfolding substringShape_def by (intro exI[of _ b] exI[of _ g] exI[of _ h] exI[of _ r]) simp
qed

lemma searchFrom_complete:
  "m u \<noteq> None \<Longrightarrow> searchFrom m pre (p @ u) \<noteq> None"
proof (induction p arbitrary: pre)
  case Nil
  then show ?case by (cases u) (auto split: option.splits)
next
  case (Cons c p)
  then show ?case by (auto split: option.splits)
qed

lemma literalCI_complete:
  assumes "map upcase a = map upcase lit"
  shows "literalCI lit (a @ r) = Some r"
  using assms by (auto simp: literalCI_iff)

lemma matchOnePackage_complete:
  assumes "map upcase a = map upcase (''tolower(Id) eq '' @ [quote])" and "oneLine g"
  shows "matchOnePackage (a @ g @ [quote] @ r) \<noteq> None"
proof -
  have l: "literalCI (''tolower(Id) eq '' @ [quote]) (a @ g @ [quote] @ r) = Some (g @ [quote] @ r)"
    using assms(1) by (rule literalCI_complete)
  have "literalCI [quote] ([quote] @ r) \<noteq> None" by (simp add: literalCI_quote)
  with assms(2) have "greedy (literalCI [quote]) (g @ [quote] @ r) \<noteq> None"
    by (rule greedy_complete)
  then show ?thesis
    unfolding matchOnePackage_def by (simp only: l option.case) simp
qed

lemma exactIdShape_iff: "exactIdShape flt \<longleftrightarrow> filterForOnePackage flt \<noteq> None"
proof
  assume "exactIdShape flt"
  then obtain p a g r where f: "flt = p @ a @ g @ [quote] @ r"
    and a: "map upcase a = map upcase (''tolower(Id) eq '' @ [quote])" and g: "oneLine g"
    unfolding exactIdShape_def by blast
  have "searchFrom matchOnePackage [] (p @ a @ g @ [quote] @ r) \<noteq> None"
    by (rule searchFrom_complete) (rule matchOnePackage_complete[OF a g])
  then show "filterForOnePackage flt \<noteq> None"
    unfolding filterForOnePackage_def search_def f by simp
next
  assume "filterForOnePackage flt \<noteq> None"
  then show "exactIdShape flt" using filterForOnePackage_shape by blast
qed

lemma matchManyPackages_complete:
  assumes "oneLine g" and "oneLine h"
  shows "matchManyPackages
           (''substringof('' @ [quote] @ g @ [quote] @ '',tolower('' @ h @ ''))'' @ r) \<noteq> None"
proof -
  let ?k = "\<lambda>t. case literal ([quote] @ '',tolower('') t of
                        None \<Rightarrow> None
                      | Some u \<Rightarrow> lazy (literal ''))'') u"
  let ?u = "h @ ''))'' @ r"
  let ?t = "([quote] @ '',tolower('') @ ?u"
  have l: "literal (''substringof('' @ [quote]) ((''substringof('' @ [quote]) @ g @ ?t) = Some (g @ ?t)"
    by (simp only: literal_Some)
  have "literal ''))'' (''))'' @ r) \<noteq> None" by (simp add: literal_def)
  with assms(2) have i: "lazy (literal ''))'') ?u \<noteq> None" by (rule lazy_complete)
  have u: "literal ([quote] @ '',tolower('') ?t = Some ?u"
    by (simp only: literal_Some)
  have "?k ?t \<noteq> None" using i by (simp only: u option.case not_False_eq_True)
  with assms(1) have "lazy ?k (g @ ?t) \<noteq> None" by (rule lazy_complete)
  then have "matchManyPackages ((''substringof('' @ [quote]) @ g @ ?t) \<noteq> None"
    unfolding matchManyPackages_def by (simp only: l option.case) simp
  then show ?thesis by simp
qed

lemma substringShape_iff: "substringShape flt \<longleftrightarrow> filterForManyPackages flt \<noteq> None"
proof
  assume "substringShape flt"
  then obtain p g h r where
    f: "flt = p @ ''substringof('' @ [quote] @ g @ [quote] @ '',tolower('' @ h @ ''))'' @ r"
    and g: "oneLine g" and h: "oneLine h"
    unfolding substringShape_def by blast
  have "searchFrom matchManyPackages []
          (p @ ''substringof('' @ [quote] @ g @ [quote] @ '',tolower('' @ h @ ''))'' @ r) \<noteq> None"
    by (rule searchFrom_complete) (rule matchManyPackages_complete[OF g h])
  then show "filterForManyPackages flt \<noteq> None"
    unfolding filterForManyPackages_def search_def f by simp
next
  assume "filterForManyPackages flt \<noteq> None"
  then show "substringShape flt" using filterForManyPackages_shape by blast
qed

section \<open>Rendering goes line by line\<close>

text \<open>
  A match of \<open>/{(.*)}/\<close> lies within one line, so the replacement of a text that ends with a
  line terminator does not depend on what follows it.
\<close>

lemma greedy_brace_append:
  assumes "s \<noteq> []" and "isLineTerminator (last s)"
  shows "greedy (literal ''}'') (s @ b) =
           map_option (\<lambda>(g, r). (g, r @ b)) (greedy (literal ''}'') s)"
  using assms
proof (induction s)
  case Nil
  then show ?case by simp
next
  case (Cons c s)
  show ?case
  proof (cases "s = []")
    case True
    with Cons.prems have "isLineTerminator c" by simp
    then have "c \<noteq> CHR ''}''" by (auto simp: isLineTerminator_def)
    with True \<open>isLineTerminator c\<close> show ?thesis by (simp add: literal_def)
  next
    case False
    with Cons.prems have "isLineTerminator (last s)" by simp
    from Cons.IH[OF False this] show ?thesis
      by (auto simp: literal_def split: option.splits)
  qed
qed

lemma matchBraces_append:
  assumes "s \<noteq> []" and "isLineTerminator (last s)"
  shows "matchBraces (s @ b) = map_option (\<lambda>(g, r). (g, r @ b)) (matchBraces s)"
proof (cases s)
  case Nil
  with assms show ?thesis by simp
next
  case (Cons c s')
  show ?thesis
  proof (cases "c = CHR ''{''")
    case False
    with Cons show ?thesis by (simp add: matchBraces_def literal_def)
  next
    case True
    with Cons assms have "s' \<noteq> []" by (auto simp: isLineTerminator_def)
    moreover from this Cons assms have "isLineTerminator (last s')" by simp
    ultimately have "greedy (literal ''}'') (s' @ b) =
        map_option (\<lambda>(g, r). (g, r @ b)) (greedy (literal ''}'') s')"
      by (rule greedy_brace_append)
    with True Cons show ?thesis by (simp add: matchBraces_def literal_def)
  qed
qed

lemma matchBraces_suffix: "matchBraces s = Some (key, rest) \<Longrightarrow> suffix rest s"
proof -
  assume "matchBraces s = Some (key, rest)"
  then obtain s' where 1: "literal ''{'' s = Some s'"
    and 2: "greedy (literal ''}'') s' = Some (key, rest)"
    by (auto simp: matchBraces_def split: option.splits)
  from greedy_Some[OF 2] obtain t where "s' = key @ t" "literal ''}'' t = Some rest" by blast
  with 1 have "s = (''{'' @ key @ ''}'') @ rest" by (simp add: literal_Some)
  then show ?thesis unfolding suffix_def by blast
qed

lemma replaceBraces_append:
  "s = [] \<or> isLineTerminator (last s) \<Longrightarrow>
   replaceBraces f (s @ b) = replaceBraces f s @ replaceBraces f b"
proof (induction f s rule: replaceBraces.induct)
  case (1 f)
  show ?case by simp
next
  case (2 f c cs)
  from "2.prems" have lt: "isLineTerminator (last (c # cs))" by simp
  have m: "matchBraces ((c # cs) @ b) = map_option (\<lambda>(g, r). (g, r @ b)) (matchBraces (c # cs))"
    by (rule matchBraces_append[OF _ lt]) simp
  show ?case
  proof (cases "matchBraces (c # cs)")
    case None
    have "cs = [] \<or> isLineTerminator (last cs)" using lt by (auto split: if_splits)
    from "2.IH"(1)[OF None this] None m show ?thesis by simp
  next
    case (Some kr)
    obtain key rest where kr: "kr = (key, rest)" by (cases kr)
    from matchBraces_suffix[OF Some[unfolded kr]] obtain p where "c # cs = p @ rest"
      unfolding suffix_def by blast
    with lt have "rest = [] \<or> isLineTerminator (last rest)"
      by (cases "rest = []") (auto split: if_splits)
    from "2.IH"(2)[OF Some kr[symmetric] this] Some kr m show ?thesis by simp
  qed
qed

lemma replaceBraces_concat:
  "\<forall>l\<in>set ls. l = [] \<or> isLineTerminator (last l) \<Longrightarrow>
   replaceBraces f (concat ls) = concat (map (replaceBraces f) ls)"
  by (induction ls) (simp_all add: replaceBraces_append)

lemma entryTemplateLines_end_all:
  "list_all (\<lambda>l. l = [] \<or> isLineTerminator (last l)) entryTemplateLines"
  by code_simp

lemma entryTemplateLines_end: "\<forall>l\<in>set entryTemplateLines. l = [] \<or> isLineTerminator (last l)"
  using entryTemplateLines_end_all by (simp only: list_all_iff)

lemma renderEntry_lines:
  "renderEntry entry = concat (map (replaceBraces (substitute entry)) entryTemplateLines)"
  unfolding renderEntry_def entryTemplate_def
  by (rule replaceBraces_concat) (rule entryTemplateLines_end)

text \<open>
  The callback is applied to the keys of the template and to nothing else, and the keys of
  the entry template are the following.
\<close>

lemma replaceBraces_keys:
  "\<forall>key\<in>set (templateKeys s). f key = g key \<Longrightarrow> replaceBraces f s = replaceBraces g s"
proof (induction s rule: templateKeys.induct)
  case 1
  show ?case by simp
next
  case (2 c cs)
  show ?case
  proof (cases "matchBraces (c # cs)")
    case None
    with 2 show ?thesis by simp
  next
    case (Some kr)
    obtain key rest where kr: "kr = (key, rest)" by (cases kr)
    from "2.prems" Some kr have "f key = g key" "\<forall>k\<in>set (templateKeys rest). f k = g k"
      by simp_all
    with "2.IH"(2)[OF Some kr[symmetric]] Some kr show ?thesis by simp
  qed
qed

lemma templateKeys_append:
  "s = [] \<or> isLineTerminator (last s) \<Longrightarrow> templateKeys (s @ b) = templateKeys s @ templateKeys b"
proof (induction s rule: templateKeys.induct)
  case 1
  show ?case by simp
next
  case (2 c cs)
  from "2.prems" have lt: "isLineTerminator (last (c # cs))" by simp
  have m: "matchBraces ((c # cs) @ b) = map_option (\<lambda>(g, r). (g, r @ b)) (matchBraces (c # cs))"
    by (rule matchBraces_append[OF _ lt]) simp
  show ?case
  proof (cases "matchBraces (c # cs)")
    case None
    have "cs = [] \<or> isLineTerminator (last cs)" using lt by (auto split: if_splits)
    from "2.IH"(1)[OF None this] None m show ?thesis by simp
  next
    case (Some kr)
    obtain key rest where kr: "kr = (key, rest)" by (cases kr)
    from matchBraces_suffix[OF Some[unfolded kr]] obtain p where "c # cs = p @ rest"
      unfolding suffix_def by blast
    with lt have "rest = [] \<or> isLineTerminator (last rest)"
      by (cases "rest = []") (auto split: if_splits)
    from "2.IH"(2)[OF Some kr[symmetric] this] Some kr m show ?thesis by simp
  qed
qed

lemma templateKeys_concat:
  "\<forall>l\<in>set ls. l = [] \<or> isLineTerminator (last l) \<Longrightarrow>
   templateKeys (concat ls) = concat (map templateKeys ls)"
  by (induction ls) (simp_all add: templateKeys_append)

lemma entryTemplate_keys_by_line:
  "concat (map templateKeys entryTemplateLines) =
     [''name}/{version'', ''id'', ''summary'', ''authors'', ''url'', ''summary'', ''version'',
      ''title'', ''description'', ''_flat_tags'', ''copyright'', ''_flat_deps'', ''iconUrl'',
      ''licenseUrl'', ''requireLicenseAcceptance'', ''projectUrl'', ''releaseNotes'',
      ''projectSourceUrl'', ''packageSourceUrl'', ''docsUrl'', ''mailingListUrl'',
      ''bugTrackerUrl'']"
  by code_simp

lemma entryTemplate_keys:
  "templateKeys entryTemplate =
     [''name}/{version'', ''id'', ''summary'', ''authors'', ''url'', ''summary'', ''version'',
      ''title'', ''description'', ''_flat_tags'', ''copyright'', ''_flat_deps'', ''iconUrl'',
      ''licenseUrl'', ''requireLicenseAcceptance'', ''projectUrl'', ''releaseNotes'',
      ''projectSourceUrl'', ''packageSourceUrl'', ''docsUrl'', ''mailingListUrl'',
      ''bugTrackerUrl'']"
  unfolding entryTemplate_def templateKeys_concat[OF entryTemplateLines_end]
  by (rule entryTemplate_keys_by_line)

section \<open>Properties of the preprocessing\<close>








lemma preprocessEntry_flat_tags:
  assumes "dependenciesUsable entry"
  shows "\<exists>entry'. preprocessEntry pfx entry = Inr entry' \<and>
           props entry' ''_flat_tags'' = Some (Str (flatTags (props entry ''tags'')))"
proof -
  obtain flat where "flatDeps (props entry ''dependencies'') = Inr flat"
    using assms by (auto simp: dependenciesUsable_def split: option.splits jsval.splits)
  then show ?thesis
    by (simp add: preprocessEntry_def Let_def split: option.splits)
qed

text \<open>The loop applies its body to every entry, and returns when the body returns on each.\<close>

lemma preprocessPackageMetadata_body:
  "preprocessPackageMetadata pfx pkgs = Inr pkgs' \<Longrightarrow>
   list_all2 (\<lambda>e e'. preprocessEntry pfx e = Inr e') pkgs pkgs'"
proof (induction pkgs arbitrary: pkgs')
  case Nil
  then show ?case by simp
next
  case (Cons e es)
  from Cons.prems obtain e' es' where
    p: "preprocessEntry pfx e = Inr e'" "preprocessPackageMetadata pfx es = Inr es'"
       "pkgs' = e' # es'"
    by (auto split: sum.splits)
  from Cons.IH[OF p(2)] p(1,3) show ?case by simp
qed

lemma preprocessPackageMetadata_returns:
  "\<forall>e\<in>set pkgs. dependenciesUsable e \<Longrightarrow> \<exists>pkgs'. preprocessPackageMetadata pfx pkgs = Inr pkgs'"
proof (induction pkgs)
  case Nil
  show ?case by simp
next
  case (Cons e es)
  from Cons.prems have "dependenciesUsable e" by simp
  from preprocessEntry_flat_tags[OF this, of pfx] obtain e' where "preprocessEntry pfx e = Inr e'"
    by blast
  moreover from Cons obtain es' where "preprocessPackageMetadata pfx es = Inr es'" by auto
  ultimately show ?case by simp
qed

lemma preprocessEntry_sets:
  assumes "preprocessEntry pfx entry = Inr entry'"
  shows "\<exists>flat. flatDeps (props entry ''dependencies'') = Inr flat \<and>
           props entry' ''_flat_deps'' = Some (Str flat) \<and>
           props entry' ''_flat_tags'' = Some (Str (flatTags (props entry ''tags'')))"
  using assms by (auto simp: preprocessEntry_def Let_def split: sum.splits option.splits)

lemma preprocessPackageMetadata_sets:
  assumes "\<forall>e\<in>set pkgs. dependenciesUsable e"
  shows "\<exists>pkgs'. preprocessPackageMetadata pfx pkgs = Inr pkgs' \<and>
           list_all2 (\<lambda>e e'. \<exists>flat. flatDeps (props e ''dependencies'') = Inr flat \<and>
                         props e' ''_flat_deps'' = Some (Str flat) \<and>
                         props e' ''_flat_tags'' = Some (Str (flatTags (props e ''tags''))))
             pkgs pkgs'"
proof -
  from preprocessPackageMetadata_returns[OF assms, of pfx] obtain pkgs' where
    r: "preprocessPackageMetadata pfx pkgs = Inr pkgs'" by blast
  from preprocessPackageMetadata_body[OF r]
  have "list_all2 (\<lambda>e e'. \<exists>flat. flatDeps (props e ''dependencies'') = Inr flat \<and>
                         props e' ''_flat_deps'' = Some (Str flat) \<and>
                         props e' ''_flat_tags'' = Some (Str (flatTags (props e ''tags''))))
             pkgs pkgs'"
    by (rule list_all2_mono) (rule preprocessEntry_sets)
  with r show ?thesis by blast
qed



text \<open>
  C8.  On a list of entries each of whose \<open>dependencies\<close> can be flattened,
  \<open>preprocessPackageMetadata\<close> returns, and in the list it returns every entry has its
  \<open>_flat_tags\<close> set: for an entry with the tag string \<open>T\<close>, to \<open>T\<close> between one leading and
  one trailing space when \<open>T\<close> is not empty and to the empty string when \<open>T\<close> is empty; for
  an entry that has no \<open>tags\<close>, to the empty string.
\<close>

theorem flat_tags_format:
  "\<forall>e\<in>set pkgs. dependenciesUsable e \<Longrightarrow>
   \<exists>pkgs'. preprocessPackageMetadata pfx pkgs = Inr pkgs' \<and>
     list_all2 (\<lambda>e e'.
        (\<forall>T. props e ''tags'' = Some (Str T) \<longrightarrow>
           props e' ''_flat_tags'' = Some (Str (if T = [] then [] else '' '' @ T @ '' ''))) \<and>
        (props e ''tags'' = None \<longrightarrow> props e' ''_flat_tags'' = Some (Str []))) pkgs pkgs'"
proof -
  assume "\<forall>e\<in>set pkgs. dependenciesUsable e"
  from preprocessPackageMetadata_sets[OF this, of pfx] obtain pkgs' where
    r: "preprocessPackageMetadata pfx pkgs = Inr pkgs'" and
    s: "list_all2 (\<lambda>e e'. \<exists>flat. flatDeps (props e ''dependencies'') = Inr flat \<and>
                         props e' ''_flat_deps'' = Some (Str flat) \<and>
                         props e' ''_flat_tags'' = Some (Str (flatTags (props e ''tags''))))
             pkgs pkgs'"
    by blast
  have "list_all2 (\<lambda>e e'.
        (\<forall>T. props e ''tags'' = Some (Str T) \<longrightarrow>
           props e' ''_flat_tags'' = Some (Str (if T = [] then [] else '' '' @ T @ '' ''))) \<and>
        (props e ''tags'' = None \<longrightarrow> props e' ''_flat_tags'' = Some (Str []))) pkgs pkgs'"
    using s by (rule list_all2_mono) (auto simp: flatTags_def)
  with r show ?thesis by blast
qed

theorem flat_tags_format_witness:
  "dependenciesUsable packageP \<and> dependenciesUsable packageQ \<and> dependenciesUsable packageR \<and>
   (\<exists>pkgs'. preprocessPackageMetadata ''/'' [packageP, packageQ, packageR] = Inr pkgs' \<and>
      map (\<lambda>e. props e ''_flat_tags'') pkgs' =
        [Some (Str '' foo bar ''), Some (Str []), Some (Str [])])"
proof -
  have u: "dependenciesUsable packageP" "dependenciesUsable packageQ" "dependenciesUsable packageR"
    by (simp_all add: dependenciesUsable_def packageP_def packageQ_def packageR_def)
  then have ua: "\<forall>e\<in>set [packageP, packageQ, packageR]. dependenciesUsable e" by simp
  have p: "props packageP ''tags'' = Some (Str ''foo bar'')" by (simp add: packageP_def)
  have q: "props packageQ ''tags'' = Some (Str [])" by (simp add: packageQ_def)
  have r: "props packageR ''tags'' = None" by (simp add: packageR_def)
  from flat_tags_format[OF ua, of "''/''"] obtain pkgs' x y z where
    a: "preprocessPackageMetadata ''/'' [packageP, packageQ, packageR] = Inr pkgs'" and
    l: "pkgs' = [x, y, z]" and
    x: "\<forall>T. props packageP ''tags'' = Some (Str T) \<longrightarrow>
           props x ''_flat_tags'' = Some (Str (if T = [] then [] else '' '' @ T @ '' ''))" and
    y: "\<forall>T. props packageQ ''tags'' = Some (Str T) \<longrightarrow>
           props y ''_flat_tags'' = Some (Str (if T = [] then [] else '' '' @ T @ '' ''))" and
    z: "props packageR ''tags'' = None \<longrightarrow> props z ''_flat_tags'' = Some (Str [])"
    by (auto simp: list_all2_Cons1)
  from x p have "props x ''_flat_tags'' = Some (Str '' foo bar '')" by simp
  moreover from y q have "props y ''_flat_tags'' = Some (Str [])" by simp
  moreover from z r have "props z ''_flat_tags'' = Some (Str [])" by simp
  ultimately have m: "map (\<lambda>e. props e ''_flat_tags'') pkgs' =
        [Some (Str '' foo bar ''), Some (Str []), Some (Str [])]"
    using l by simp
  show ?thesis
    by (intro conjI u exI[of _ pkgs'] a m)
qed

section \<open>Properties of the routes\<close>

text \<open>
  C9.  A request to \<open>Packages()\<close> without the parameter \<open>$filter\<close>: \<open>filter.match\<close> is
  called on \<open>undefined\<close> and throws, and the wrapper answers with status 500 and the text
  \<open>Exception!\<close>, not with the error feed and status 400.
\<close>

theorem absent_filter_is_500:
  "filterParam req = QAbsent \<Longrightarrow>
   packagesHandler (serverTemplates srv) (packageMetadataList srv) req = Inl TypeError \<and>
   serve srv Packages req = \<lparr>status = 500, contentType = None, body = Text ''Exception!''\<rparr> \<and>
   serve srv Packages req \<noteq>
     \<lparr>status = 400, contentType = Some ATOM_MIME_TYPE,
      body = Text (errorAtom (serverTemplates srv))\<rparr>"
  by (simp add: packagesHandler_def selectPackages_def get_def)

theorem absent_filter_is_500_witness:
  "filterParam exampleRequest = QAbsent \<and>
   serve \<lparr>serverTemplates = exampleTemplates, packageMetadataList = []\<rparr> Packages exampleRequest =
     \<lparr>status = 500, contentType = None, body = Text ''Exception!''\<rparr>"
proof -
  have a: "filterParam exampleRequest = QAbsent" by (simp add: exampleRequest_def)
  from a absent_filter_is_500[OF a, of "\<lparr>serverTemplates = exampleTemplates, packageMetadataList = []\<rparr>"]
  show ?thesis by simp
qed

text \<open>
  C4.  A filter string of neither shape: the handler selects nothing, and answers with the
  error feed and status 400.  The answer is a value of the handler, which returns; the
  server it closes over is not changed by any handler.
\<close>

theorem unrecognized_filter_is_400:
  "filterParam req = QString flt \<Longrightarrow> \<not> exactIdShape flt \<Longrightarrow> \<not> substringShape flt \<Longrightarrow>
   selectPackages (packageMetadataList srv) req = Inr Unrecognized \<and>
   packagesHandler (serverTemplates srv) (packageMetadataList srv) req =
     Inr \<lparr>status = 400, contentType = Some ATOM_MIME_TYPE,
          body = Text (errorAtom (serverTemplates srv))\<rparr> \<and>
   serve srv Packages req =
     \<lparr>status = 400, contentType = Some ATOM_MIME_TYPE,
      body = Text (errorAtom (serverTemplates srv))\<rparr>"
  by (simp add: exactIdShape_iff substringShape_iff packagesHandler_def selectPackages_def get_def)

lemma filterForOnePackage_empty: "filterForOnePackage [] = None"
  by (simp add: filterForOnePackage_def search_def matchOnePackage_def quote_def)

lemma filterForManyPackages_empty: "filterForManyPackages [] = None"
  by (simp add: filterForManyPackages_def search_def matchManyPackages_def literal_def)

lemma filterForOnePackage_text: "filterForOnePackage ''Id eq foo'' = None"
  by code_simp

lemma filterForManyPackages_text: "filterForManyPackages ''Id eq foo'' = None"
  by code_simp

theorem unrecognized_filter_is_400_witness:
  "\<not> exactIdShape [] \<and> \<not> substringShape [] \<and>
   serve \<lparr>serverTemplates = exampleTemplates, packageMetadataList = []\<rparr> Packages
     (exampleRequest\<lparr>filterParam := QString []\<rparr>) =
     \<lparr>status = 400, contentType = Some ATOM_MIME_TYPE, body = Text ''<error/>''\<rparr> \<and>
   \<not> exactIdShape ''Id eq foo'' \<and> \<not> substringShape ''Id eq foo'' \<and>
   serve \<lparr>serverTemplates = exampleTemplates, packageMetadataList = []\<rparr> Packages
     (exampleRequest\<lparr>filterParam := QString ''Id eq foo''\<rparr>) =
     \<lparr>status = 400, contentType = Some ATOM_MIME_TYPE, body = Text ''<error/>''\<rparr>"
proof -
  let ?srv = "\<lparr>serverTemplates = exampleTemplates, packageMetadataList = []\<rparr>"
  have e1: "\<not> exactIdShape []" and e2: "\<not> substringShape []"
    by (simp_all add: exactIdShape_iff substringShape_iff filterForOnePackage_empty
        filterForManyPackages_empty)
  have t1: "\<not> exactIdShape ''Id eq foo''" and t2: "\<not> substringShape ''Id eq foo''"
    by (simp_all only: exactIdShape_iff substringShape_iff filterForOnePackage_text
        filterForManyPackages_text not_False_eq_True simp_thms)
  have f1: "filterParam (exampleRequest\<lparr>filterParam := QString []\<rparr>) = QString []" by simp
  have f2: "filterParam (exampleRequest\<lparr>filterParam := QString ''Id eq foo''\<rparr>) =
      QString ''Id eq foo''" by simp
  have x: "errorAtom (serverTemplates ?srv) = ''<error/>''"
    by (simp add: exampleTemplates_def)
  show ?thesis
    using e1 e2 t1 t2 unrecognized_filter_is_400[OF f1 e1 e2, of ?srv]
      unrecognized_filter_is_400[OF f2 t1 t2, of ?srv]
    by (simp only: x simp_thms)
qed

lemma preprocessEntry_keeps:
  assumes "preprocessEntry pfx entry = Inr entry'"
  shows "props entry' ''id'' = props entry ''id'' \<and> nupkgData entry' = nupkgData entry"
  using assms by (auto simp: preprocessEntry_def Let_def split: sum.splits option.splits)

lemma preprocessPackageMetadata_keeps:
  "preprocessPackageMetadata pfx pkgs = Inr pkgs' \<Longrightarrow>
   list_all2 (\<lambda>e e'. props e' ''id'' = props e ''id'' \<and> nupkgData e' = nupkgData e) pkgs pkgs'"
proof (induction pkgs arbitrary: pkgs')
  case Nil
  then show ?case by simp
next
  case (Cons e es)
  from Cons.prems obtain e' es' where
    p: "preprocessEntry pfx e = Inr e'" "preprocessPackageMetadata pfx es = Inr es'"
       "pkgs' = e' # es'"
    by (auto split: sum.splits)
  from preprocessEntry_keeps[OF p(1)] Cons.IH[OF p(2)] p(3) show ?case by simp
qed

lemma find_list_all2:
  assumes "list_all2 R xs ys" and "\<And>x y. R x y \<Longrightarrow> P x = Q y"
  shows "rel_option R (find P xs) (find Q ys)"
  using assms(1)
proof (induction rule: list_all2_induct)
  case Nil
  show ?case by simp
next
  case (Cons x xs y ys)
  then show ?case using assms(2)[of x y] by auto
qed

text \<open>
  C5.  On a server that \<open>configureRoutes\<close> has set up from the records \<open>pkgs\<close>, a download
  request whose name equals the id of a record is answered with status 200, the binary
  content type and the \<open>nupkgData\<close> of the first such record, as the record held it before
  the preprocessing; with ids that differ from record to record the first such record is
  the only one.  A request whose name equals no record's id is answered with status 404
  and the text \<open>Not found\<close>.
\<close>

theorem download_known_and_unknown:
  "configureRoutes t pfx pkgs = Inr srv \<Longrightarrow>
   (\<forall>entry. find (\<lambda>e. looseEq (props e ''id'') (nameParam req)) pkgs = Some entry \<longrightarrow>
      serve srv Download req =
        \<lparr>status = 200, contentType = Some BINARY_MIME_TYPE,
         body = (case nupkgData entry of None \<Rightarrow> NoBody | Some b \<Rightarrow> Binary b)\<rparr>) \<and>
   ((\<forall>e\<in>set pkgs. \<not> looseEq (props e ''id'') (nameParam req)) \<longrightarrow>
      serve srv Download req = \<lparr>status = 404, contentType = None, body = Text ''Not found''\<rparr>)"
proof -
  assume c: "configureRoutes t pfx pkgs = Inr srv"
  let ?P = "\<lambda>e. looseEq (props e ''id'') (nameParam req)"
  let ?R = "\<lambda>e e'. props e' ''id'' = props e ''id'' \<and> nupkgData e' = nupkgData e"
  from c have "preprocessPackageMetadata (normalizePrefix pfx) pkgs = Inr (packageMetadataList srv)"
    by (auto simp: configureRoutes_def split: sum.splits)
  then have "list_all2 ?R pkgs (packageMetadataList srv)"
    by (rule preprocessPackageMetadata_keeps)
  then have r: "rel_option ?R (find ?P pkgs) (find ?P (packageMetadataList srv))"
    by (rule find_list_all2) simp
  have known: "serve srv Download req =
        \<lparr>status = 200, contentType = Some BINARY_MIME_TYPE,
         body = (case nupkgData entry of None \<Rightarrow> NoBody | Some b \<Rightarrow> Binary b)\<rparr>"
    if "find ?P pkgs = Some entry" for entry
  proof -
    from r that obtain entry' where "find ?P (packageMetadataList srv) = Some entry'"
      and "nupkgData entry' = nupkgData entry"
      by (auto simp: option_rel_Some1)
    then show ?thesis by (simp add: downloadHandler_def get_def)
  qed
  have unknown: "serve srv Download req =
      \<lparr>status = 404, contentType = None, body = Text ''Not found''\<rparr>"
    if "\<forall>e\<in>set pkgs. \<not> ?P e"
  proof -
    from that have "find ?P pkgs = None" by (simp add: find_None_iff)
    with r have "find ?P (packageMetadataList srv) = None" by simp
    then show ?thesis by (simp add: downloadHandler_def get_def)
  qed
  from known unknown show ?thesis by blast
qed

theorem download_known_and_unknown_witness:
  "\<exists>srv. configureRoutes exampleTemplates ''/'' [packageA, packageB] = Inr srv \<and>
     serve srv Download (exampleRequest\<lparr>nameParam := ''pkg-b''\<rparr>) =
       \<lparr>status = 200, contentType = Some BINARY_MIME_TYPE, body = Binary [80, 75, 5, 6]\<rparr> \<and>
     serve srv Download (exampleRequest\<lparr>nameParam := ''pkg-c''\<rparr>) =
       \<lparr>status = 404, contentType = None, body = Text ''Not found''\<rparr>"
proof -
  obtain srv where c: "configureRoutes exampleTemplates ''/'' [packageA, packageB] = Inr srv"
    by (simp add: configureRoutes_def preprocessEntry_def packageA_def packageB_def Let_def)
  have k: "find (\<lambda>e. looseEq (props e ''id'') (nameParam (exampleRequest\<lparr>nameParam := ''pkg-b''\<rparr>)))
             [packageA, packageB] = Some packageB"
    by (simp add: packageA_def packageB_def)
  have u: "\<forall>e\<in>set [packageA, packageB].
             \<not> looseEq (props e ''id'') (nameParam (exampleRequest\<lparr>nameParam := ''pkg-c''\<rparr>))"
    by (simp add: packageA_def packageB_def)
  have b: "nupkgData packageB = Some [80, 75, 5, 6]" by (simp add: packageB_def)
  from download_known_and_unknown[OF c, of "exampleRequest\<lparr>nameParam := ''pkg-b''\<rparr>"] k b
  have 1: "serve srv Download (exampleRequest\<lparr>nameParam := ''pkg-b''\<rparr>) =
       \<lparr>status = 200, contentType = Some BINARY_MIME_TYPE, body = Binary [80, 75, 5, 6]\<rparr>"
    by simp
  from download_known_and_unknown[OF c, of "exampleRequest\<lparr>nameParam := ''pkg-c''\<rparr>"] u
  have 2: "serve srv Download (exampleRequest\<lparr>nameParam := ''pkg-c''\<rparr>) =
       \<lparr>status = 404, contentType = None, body = Text ''Not found''\<rparr>"
    by blast
  from c 1 2 show ?thesis by blast
qed

section \<open>FindPackagesById\<close>

lemma quote_not_terminator: "\<not> isLineTerminator quote"
  by (simp add: isLineTerminator_def quote_def)

lemma greedy_quote_end:
  "oneLine x \<Longrightarrow> greedy (literal [quote]) (x @ [quote]) = Some (x, [])"
proof (induction x)
  case Nil
  show ?case by (simp add: quote_not_terminator literal_def)
next
  case (Cons c x)
  then show ?case by (simp add: oneLine_def)
qed

lemma stripQuotes_quoted: "oneLine x \<Longrightarrow> stripQuotes ([quote] @ x @ [quote]) = x"
  by (simp add: stripQuotes_def search_def matchQuoted_def literal_def greedy_quote_end)

text \<open>
  When the value between the two quotes has no line terminator, the pattern matches from
  the first quote to the last one, the quotes go, and the route returns the records whose
  id equals the value between them.
\<close>

lemma selectById_quoted:
  assumes "oneLine x" and "idParam req = QString ([quote] @ x @ [quote])"
  shows "selectById (packageMetadataList srv) req =
           Inr (filter (\<lambda>entry. looseEq (props entry ''id'') x) (packageMetadataList srv))"
  unfolding selectById_def assms(2) using stripQuotes_quoted[OF assms(1)] by simp

lemma stripQuotes_line_break:
  "stripQuotes ([quote] @ ''a\<newline>b'' @ [quote]) = [quote] @ ''a\<newline>b'' @ [quote]"
  by code_simp

lemma configureRoutes_packageL:
  "configureRoutes exampleTemplates ''/'' [packageL] =
     Inr \<lparr>serverTemplates = exampleTemplates, packageMetadataList = [preprocessedL]\<rparr>"
  by (simp add: configureRoutes_def preprocessEntry_def Let_def packageL_def preprocessedL_def
      flatTags_def)

lemma formatPackages_none:
  "formatPackages exampleTemplates [] req = ''<feed>\<newline></feed>\<newline>''"
  by (simp add: formatPackages_def exampleTemplates_def)

text \<open>
  C6.  The handler is to strip the single quotes from the id (its comment says so), and it
  does so with \<open>.replace(/'(.*)'/, '$1')\<close>.  \<open>.\<close> matches no line terminator, so when the
  value between the quotes has a line break the pattern finds no match and the quotes stay.
  On the server configured with the one record whose id is \<open>a\<close>, a line feed, \<open>b\<close>, the
  request for that id between quotes compares the id with the quoted text, selects nothing
  and is answered with an empty feed, although the id of the record equals the unquoted
  value; the request for the id without the quotes selects the record.
\<close>

theorem quoted_id_keeps_quotes:
  "configureRoutes exampleTemplates ''/'' [packageL] =
     Inr \<lparr>serverTemplates = exampleTemplates, packageMetadataList = [preprocessedL]\<rparr> \<and>
   looseEq (props preprocessedL ''id'') ''a\<newline>b'' \<and>
   stripQuotes ([quote] @ ''a\<newline>b'' @ [quote]) = [quote] @ ''a\<newline>b'' @ [quote] \<and>
   selectById [preprocessedL]
     (exampleRequest\<lparr>idParam := QString ([quote] @ ''a\<newline>b'' @ [quote])\<rparr>) = Inr [] \<and>
   serve \<lparr>serverTemplates = exampleTemplates, packageMetadataList = [preprocessedL]\<rparr>
     FindPackagesById (exampleRequest\<lparr>idParam := QString ([quote] @ ''a\<newline>b'' @ [quote])\<rparr>) =
     \<lparr>status = 200, contentType = Some ATOM_MIME_TYPE,
      body = Text ''<feed>\<newline></feed>\<newline>''\<rparr> \<and>
   selectById [preprocessedL] (exampleRequest\<lparr>idParam := QString ''a\<newline>b''\<rparr>) =
     Inr [preprocessedL]"
proof -
  let ?quoted = "exampleRequest\<lparr>idParam := QString ([quote] @ ''a\<newline>b'' @ [quote])\<rparr>"
  have a: "looseEq (props preprocessedL ''id'') ''a\<newline>b''"
    by (simp add: preprocessedL_def packageL_def)
  have b: "selectById [preprocessedL] ?quoted = Inr []"
    using stripQuotes_line_break
    by (simp add: selectById_def preprocessedL_def packageL_def quote_def)
  have c: "serve \<lparr>serverTemplates = exampleTemplates, packageMetadataList = [preprocessedL]\<rparr>
     FindPackagesById ?quoted =
     \<lparr>status = 200, contentType = Some ATOM_MIME_TYPE,
      body = Text ''<feed>\<newline></feed>\<newline>''\<rparr>"
  proof -
    have "findPackagesByIdHandler exampleTemplates [preprocessedL] ?quoted =
        Inr (feed exampleTemplates [] ?quoted)"
      unfolding findPackagesByIdHandler_def b by simp
    then show ?thesis
      by (simp add: get_def feed_def formatPackages_none)
  qed
  have u: "stripQuotes ''a\<newline>b'' = ''a\<newline>b''"
    by code_simp
  have d: "selectById [preprocessedL] (exampleRequest\<lparr>idParam := QString ''a\<newline>b''\<rparr>) =
     Inr [preprocessedL]"
    using u by (simp add: selectById_def preprocessedL_def packageL_def)
  show ?thesis
    by (intro conjI configureRoutes_packageL a stripQuotes_line_break b c d)
qed

section \<open>The search filter\<close>

lemma exn_TypeError: "(e :: exn) = TypeError"
  by (cases e) simp

lemma valIncludes_cases:
  "valIncludes v s = Inl TypeError \<and> v = None \<or>
   valIncludes v s = Inr True \<and> v \<noteq> None \<or>
   valIncludes v s = Inr False \<and> v \<noteq> None"
proof (cases v)
  case None
  then show ?thesis by simp
next
  case (Some w)
  then show ?thesis by (cases w) auto
qed

lemma valContains_Some: "valContains v s \<Longrightarrow> v \<noteq> None"
  using valIncludes_cases[of v s] by (auto simp: valContains_def)

lemma substringMatches_eq:
  "substringMatches s entry =
     (if evaluable s entry then Inr (wholeTagMatch s entry) else Inl TypeError)"
  using valIncludes_cases[of "props entry ''id''" s]
    valIncludes_cases[of "props entry ''summary''" s]
    valIncludes_cases[of "props entry ''_flat_tags''" "'' '' @ s @ '' ''"]
  by (auto simp: substringMatches_def evaluable_def wholeTagMatch_def valContains_def)

lemma filterThrowing_throws:
  "x \<in> set xs \<Longrightarrow> p x = Inl TypeError \<Longrightarrow> filterThrowing p xs = Inl TypeError"
proof (induction xs)
  case Nil
  then show ?case by simp
next
  case (Cons y ys)
  then show ?case by (auto split: sum.splits simp: exn_TypeError)
qed

lemma filterThrowing_returns:
  "\<forall>x\<in>set xs. p x = Inr (q x) \<Longrightarrow> filterThrowing p xs = Inr (filter q xs)"
  by (induction xs) simp_all

lemma selectPackages_branch:
  "takesSubstringBranch req s \<Longrightarrow>
   selectPackages pkgs req =
     (case filterThrowing (substringMatches s) pkgs of
        Inl x \<Rightarrow> Inl x
      | Inr matchedPackages \<Rightarrow> Inr (Matched matchedPackages))"
  by (auto simp: takesSubstringBranch_def selectPackages_def split: qparam.splits)

lemma selectPackages_evaluable:
  assumes "takesSubstringBranch req s" and "\<forall>e\<in>set pkgs. evaluable s e"
  shows "selectPackages pkgs req = Inr (Matched (filter (wholeTagMatch s) pkgs))"
proof -
  from assms(2) have "\<forall>e\<in>set pkgs. substringMatches s e = Inr (wholeTagMatch s e)"
    by (simp add: substringMatches_eq)
  then have "filterThrowing (substringMatches s) pkgs = Inr (filter (wholeTagMatch s) pkgs)"
    by (rule filterThrowing_returns)
  with selectPackages_branch[OF assms(1)] show ?thesis by simp
qed

lemma selectPackages_throws:
  assumes "takesSubstringBranch req s" and "e \<in> set pkgs" and "\<not> evaluable s e"
  shows "selectPackages pkgs req = Inl TypeError"
proof -
  from assms(3) have "substringMatches s e = Inl TypeError"
    by (simp add: substringMatches_eq)
  with assms(2) have "filterThrowing (substringMatches s) pkgs = Inl TypeError"
    by (rule filterThrowing_throws)
  with selectPackages_branch[OF assms(1)] show ?thesis by simp
qed

text \<open>
  On a server that \<open>configureRoutes\<close> has set up every record has \<open>_flat_tags\<close>, so the
  test can be evaluated on every record when every record has an id, and a summary
  unless its id contains the substring.
\<close>

lemma preprocessEntry_evaluable:
  "preprocessEntry pfx e = Inr e' \<Longrightarrow>
   evaluable s e' =
     (props e ''id'' \<noteq> None \<and> (valContains (props e ''id'') s \<or> props e ''summary'' \<noteq> None))"
  by (auto simp: preprocessEntry_def Let_def evaluable_def split: sum.splits option.splits)

lemma list_all2_list_all:
  "list_all2 R xs ys \<Longrightarrow> (\<And>x y. R x y \<Longrightarrow> P x = Q y) \<Longrightarrow> list_all P xs = list_all Q ys"
  by (induction rule: list_all2_induct) auto

lemma configured_evaluable:
  assumes "configureRoutes t pfx pkgs = Inr srv"
  shows "(\<forall>e\<in>set (packageMetadataList srv). evaluable s e) \<longleftrightarrow>
         (\<forall>e\<in>set pkgs. props e ''id'' \<noteq> None \<and>
            (valContains (props e ''id'') s \<or> props e ''summary'' \<noteq> None))"
proof -
  from assms have
    "preprocessPackageMetadata (normalizePrefix pfx) pkgs = Inr (packageMetadataList srv)"
    by (auto simp: configureRoutes_def split: sum.splits)
  then have "list_all2 (\<lambda>e e'. preprocessEntry (normalizePrefix pfx) e = Inr e')
      pkgs (packageMetadataList srv)"
    by (rule preprocessPackageMetadata_body)
  then have "list_all (\<lambda>e. props e ''id'' \<noteq> None \<and>
            (valContains (props e ''id'') s \<or> props e ''summary'' \<noteq> None)) pkgs =
      list_all (evaluable s) (packageMetadataList srv)"
    by (rule list_all2_list_all) (simp add: preprocessEntry_evaluable)
  then show ?thesis by (simp add: list_all_iff)
qed

lemma search_foo: "takesSubstringBranch (searchRequest ''foo'') ''foo''"
proof -
  have "filterForOnePackage (searchFilter ''foo'') = None" by code_simp
  moreover have "filterForManyPackages (searchFilter ''foo'') = Some ''foo''" by code_simp
  ultimately show ?thesis
    by (simp add: takesSubstringBranch_def searchRequest_def)
qed

lemma preprocess_packageA: "preprocessEntry ''/'' packageA = Inr preprocessedA"
  by (simp add: preprocessEntry_def packageA_def preprocessedA_def flatTags_def downloadUrl_def)

lemma preprocess_packageB: "preprocessEntry ''/'' packageB = Inr preprocessedB"
  by (simp add: preprocessEntry_def packageB_def preprocessedB_def flatTags_def downloadUrl_def)

text \<open>
  C3, as stated, fails in two ways.  The record \<open>pkg-a\<close> has the tag \<open>foobar\<close>: its
  \<open>_flat_tags\<close> contains \<open>foo\<close>, but not \<open>foo\<close> between two spaces, and the search for
  \<open>foo\<close> does not return it.  And on a record without summary whose id does not contain
  \<open>foo\<close> the search throws and returns nothing.
\<close>

theorem substring_search_counterexample:
  "takesSubstringBranch (searchRequest ''foo'') ''foo'' \<and>
   preprocessEntry ''/'' packageA = Inr preprocessedA \<and>
   valIncludes (props preprocessedA ''_flat_tags'') ''foo'' = Inr True \<and>
   selectPackages [preprocessedA] (searchRequest ''foo'') = Inr (Matched []) \<and>
   selectPackages [preprocessedD] (searchRequest ''foo'') = Inl TypeError"
proof -
  have 1: "valIncludes (props preprocessedA ''_flat_tags'') ''foo'' = Inr True"
    by (simp add: preprocessedA_def)
  have e: "evaluable ''foo'' preprocessedA"
    by (simp add: evaluable_def preprocessedA_def packageA_def)
  have w: "\<not> wholeTagMatch ''foo'' preprocessedA"
    by (simp add: wholeTagMatch_def valContains_def preprocessedA_def packageA_def)
  have 2: "selectPackages [preprocessedA] (searchRequest ''foo'') = Inr (Matched [])"
    using selectPackages_evaluable[OF search_foo, of "[preprocessedA]"] e w by simp
  have d: "\<not> evaluable ''foo'' preprocessedD"
    by (simp add: evaluable_def valContains_def preprocessedD_def)
  have 3: "selectPackages [preprocessedD] (searchRequest ''foo'') = Inl TypeError"
    by (rule selectPackages_throws[OF search_foo _ d]) simp
  from search_foo preprocess_packageA 1 2 3 show ?thesis by (intro conjI)
qed

text \<open>
  C3, amended.  For a request recognized as a substring filter with the operand \<open>s\<close>, on a
  record set on which the test can be evaluated, the route returns exactly the records
  whose id contains \<open>s\<close>, or whose summary contains \<open>s\<close>, or whose \<open>_flat_tags\<close> contains
  \<open>s\<close> between two spaces, in the order of the list.
\<close>

theorem substring_search_whole_tag:
  "takesSubstringBranch req s \<Longrightarrow> \<forall>e\<in>set (packageMetadataList srv). evaluable s e \<Longrightarrow>
   selectPackages (packageMetadataList srv) req =
     Inr (Matched (filter (wholeTagMatch s) (packageMetadataList srv))) \<and>
   serve srv Packages req =
     feed (serverTemplates srv) (filter (wholeTagMatch s) (packageMetadataList srv)) req"
proof -
  assume "takesSubstringBranch req s" and "\<forall>e\<in>set (packageMetadataList srv). evaluable s e"
  then have "selectPackages (packageMetadataList srv) req =
     Inr (Matched (filter (wholeTagMatch s) (packageMetadataList srv)))"
    by (rule selectPackages_evaluable)
  then show ?thesis by (simp add: packagesHandler_def get_def)
qed

theorem substring_search_whole_tag_witness:
  "takesSubstringBranch (searchRequest ''foo'') ''foo'' \<and>
   evaluable ''foo'' preprocessedA \<and> evaluable ''foo'' preprocessedC \<and>
   selectPackages [preprocessedA, preprocessedC] (searchRequest ''foo'') =
     Inr (Matched [preprocessedC])"
proof -
  let ?srv = "\<lparr>serverTemplates = exampleTemplates,
               packageMetadataList = [preprocessedA, preprocessedC]\<rparr>"
  have a: "evaluable ''foo'' preprocessedA"
    by (simp add: evaluable_def preprocessedA_def packageA_def)
  have c: "evaluable ''foo'' preprocessedC"
    by (simp add: evaluable_def valContains_def preprocessedC_def)
  have wa: "\<not> wholeTagMatch ''foo'' preprocessedA"
    by (simp add: wholeTagMatch_def valContains_def preprocessedA_def packageA_def)
  have wc: "wholeTagMatch ''foo'' preprocessedC"
    by (simp add: wholeTagMatch_def valContains_def preprocessedC_def)
  have h: "\<forall>e\<in>set (packageMetadataList ?srv). evaluable ''foo'' e" using a c by simp
  from substring_search_whole_tag[OF search_foo h] wa wc
  have "selectPackages [preprocessedA, preprocessedC] (searchRequest ''foo'') =
     Inr (Matched [preprocessedC])"
    by simp
  with search_foo a c show ?thesis by (intro conjI)
qed

text \<open>
  C10, as stated, fails: \<open>||\<close> does not evaluate \<open>summary.includes\<close> on a record whose id
  contains the substring.  The record \<open>foobar\<close> has no summary, and the search for \<open>foo\<close>
  returns it with status 200.
\<close>

theorem missing_summary_counterexample:
  "takesSubstringBranch (searchRequest ''foo'') ''foo'' \<and>
   props preprocessedC ''summary'' = None \<and>
   selectPackages [preprocessedC] (searchRequest ''foo'') = Inr (Matched [preprocessedC]) \<and>
   status (serve \<lparr>serverTemplates = exampleTemplates, packageMetadataList = [preprocessedC]\<rparr>
             Packages (searchRequest ''foo'')) = 200"
proof -
  have n: "props preprocessedC ''summary'' = None" by (simp add: preprocessedC_def)
  have c: "evaluable ''foo'' preprocessedC"
    by (simp add: evaluable_def valContains_def preprocessedC_def)
  have wc: "wholeTagMatch ''foo'' preprocessedC"
    by (simp add: wholeTagMatch_def valContains_def preprocessedC_def)
  have s: "selectPackages [preprocessedC] (searchRequest ''foo'') = Inr (Matched [preprocessedC])"
    using selectPackages_evaluable[OF search_foo, of "[preprocessedC]"] c wc by simp
  then have "status (serve \<lparr>serverTemplates = exampleTemplates, packageMetadataList = [preprocessedC]\<rparr>
             Packages (searchRequest ''foo'')) = 200"
    by (simp add: packagesHandler_def get_def feed_def)
  with search_foo n s show ?thesis by (intro conjI)
qed

text \<open>
  C10, amended.  A substring-filter query evaluates \<open>summary.includes\<close> only on the records
  whose id does not contain the substring.  If such a record has no summary, the whole
  query throws and is answered with status 500 and the text \<open>Exception!\<close>, whatever the
  other records are; if the id of every record contains the substring, the query
  succeeds and returns all records, with or without summary.
\<close>

theorem missing_summary_throws:
  "takesSubstringBranch req s \<Longrightarrow>
   ((\<exists>e\<in>set (packageMetadataList srv).
        \<not> valContains (props e ''id'') s \<and> props e ''summary'' = None) \<longrightarrow>
      selectPackages (packageMetadataList srv) req = Inl TypeError \<and>
      serve srv Packages req = \<lparr>status = 500, contentType = None, body = Text ''Exception!''\<rparr>) \<and>
   ((\<forall>e\<in>set (packageMetadataList srv). valContains (props e ''id'') s) \<longrightarrow>
      serve srv Packages req = feed (serverTemplates srv) (packageMetadataList srv) req)"
proof (intro conjI impI)
  assume b: "takesSubstringBranch req s"
  assume "\<exists>e\<in>set (packageMetadataList srv).
        \<not> valContains (props e ''id'') s \<and> props e ''summary'' = None"
  then obtain e where e: "e \<in> set (packageMetadataList srv)"
    "\<not> valContains (props e ''id'') s" "props e ''summary'' = None"
    by blast
  then have "\<not> evaluable s e" by (simp add: evaluable_def)
  with b e(1) show t: "selectPackages (packageMetadataList srv) req = Inl TypeError"
    by (rule selectPackages_throws)
  then show "serve srv Packages req =
      \<lparr>status = 500, contentType = None, body = Text ''Exception!''\<rparr>"
    by (simp add: packagesHandler_def get_def)
next
  assume b: "takesSubstringBranch req s"
  assume a: "\<forall>e\<in>set (packageMetadataList srv). valContains (props e ''id'') s"
  then have "\<forall>e\<in>set (packageMetadataList srv). evaluable s e"
    using valContains_Some by (simp add: evaluable_def) blast
  with b have "selectPackages (packageMetadataList srv) req =
      Inr (Matched (filter (wholeTagMatch s) (packageMetadataList srv)))"
    by (rule selectPackages_evaluable)
  moreover have "filter (wholeTagMatch s) (packageMetadataList srv) = packageMetadataList srv"
    using a by (simp add: wholeTagMatch_def)
  ultimately show "serve srv Packages req =
      feed (serverTemplates srv) (packageMetadataList srv) req"
    by (simp add: packagesHandler_def get_def)
qed

theorem missing_summary_throws_witness:
  "takesSubstringBranch (searchRequest ''foo'') ''foo'' \<and>
   \<not> valContains (props preprocessedD ''id'') ''foo'' \<and> props preprocessedD ''summary'' = None \<and>
   serve \<lparr>serverTemplates = exampleTemplates, packageMetadataList = [preprocessedC, preprocessedD]\<rparr>
     Packages (searchRequest ''foo'') =
     \<lparr>status = 500, contentType = None, body = Text ''Exception!''\<rparr> \<and>
   valContains (props preprocessedC ''id'') ''foo'' \<and>
   serve \<lparr>serverTemplates = exampleTemplates, packageMetadataList = [preprocessedC]\<rparr>
     Packages (searchRequest ''foo'') =
     feed exampleTemplates [preprocessedC] (searchRequest ''foo'')"
proof -
  let ?s2 = "\<lparr>serverTemplates = exampleTemplates,
              packageMetadataList = [preprocessedC, preprocessedD]\<rparr>"
  let ?s1 = "\<lparr>serverTemplates = exampleTemplates, packageMetadataList = [preprocessedC]\<rparr>"
  have d: "\<not> valContains (props preprocessedD ''id'') ''foo''"
    by (simp add: valContains_def preprocessedD_def)
  have n: "props preprocessedD ''summary'' = None" by (simp add: preprocessedD_def)
  have c: "valContains (props preprocessedC ''id'') ''foo''"
    by (simp add: valContains_def preprocessedC_def)
  have 1: "serve ?s2 Packages (searchRequest ''foo'') =
      \<lparr>status = 500, contentType = None, body = Text ''Exception!''\<rparr>"
    using missing_summary_throws[OF search_foo, of ?s2] d n by simp
  have 2: "serve ?s1 Packages (searchRequest ''foo'') =
      feed exampleTemplates [preprocessedC] (searchRequest ''foo'')"
    using missing_summary_throws[OF search_foo, of ?s1] c by simp
  from search_foo d n 1 c 2 show ?thesis by (intro conjI)
qed

section \<open>What formatPackages leaves in the response\<close>

lemma strIncludes_iff: "strIncludes s n \<longleftrightarrow> (\<exists>p q. s = p @ n @ q)"
proof (induction s)
  case Nil
  show ?case by auto
next
  case (Cons c cs)
  show ?case
  proof
    assume "strIncludes (c # cs) n"
    then consider "prefix n (c # cs)" | "strIncludes cs n" by auto
    then show "\<exists>p q. c # cs = p @ n @ q"
    proof cases
      case 1
      then obtain q where "c # cs = n @ q" unfolding prefix_def by blast
      then have "c # cs = [] @ n @ q" by simp
      then show ?thesis by blast
    next
      case 2
      with Cons.IH obtain p q where "cs = p @ n @ q" by blast
      then have "c # cs = (c # p) @ n @ q" by simp
      then show ?thesis by blast
    qed
  next
    assume "\<exists>p q. c # cs = p @ n @ q"
    then obtain p q where e: "c # cs = p @ n @ q" by blast
    show "strIncludes (c # cs) n"
    proof (cases p)
      case Nil
      with e have "prefix n (c # cs)" unfolding prefix_def by auto
      then show ?thesis by simp
    next
      case (Cons c' p')
      with e have "cs = p' @ n @ q" by simp
      with Cons.IH have "strIncludes cs n" by blast
      then show ?thesis by simp
    qed
  qed
qed

lemma strIncludes_append: "strIncludes b n \<Longrightarrow> strIncludes (a @ b @ c) n"
proof -
  assume "strIncludes b n"
  then obtain p q where "b = p @ n @ q" unfolding strIncludes_iff by blast
  then have "a @ b @ c = (a @ p) @ n @ (q @ c)" by simp
  then show ?thesis unfolding strIncludes_iff by blast
qed

lemma strIncludes_concat:
  "list_ex (\<lambda>l. strIncludes l n) ls \<Longrightarrow> strIncludes (concat ls) n"
proof -
  assume "list_ex (\<lambda>l. strIncludes l n) ls"
  then obtain l where "l \<in> set ls" "strIncludes l n" unfolding list_ex_iff by blast
  then obtain xs ys where "ls = xs @ l # ys" by (meson split_list)
  then have "concat ls = concat xs @ l @ concat ys" by simp
  with \<open>strIncludes l n\<close> show ?thesis by (simp only: strIncludes_append)
qed

lemma getSubstitution_no_dollar:
  "CHR ''$'' \<notin> set r \<Longrightarrow> getSubstitution matched pre post r = r"
  by (induction matched pre post r rule: getSubstitution.induct) auto

text \<open>
  A pattern without the flag \<open>g\<close> is replaced once: an occurrence that follows another one
  stays in the result.
\<close>

lemma replaceLiteral_keeps_later:
  "pat \<noteq> [] \<Longrightarrow> strIncludes w n \<Longrightarrow>
   strIncludes (replaceLiteral False pat repl pre (x @ pat @ w)) n"
proof (induction x arbitrary: pre)
  case Nil
  from Nil.prems(1) obtain c cs where p: "pat = c # cs" by (cases pat) auto
  have "replaceLiteral False pat repl pre (pat @ w) =
          getSubstitution pat pre w repl @ w"
    unfolding p by simp
  moreover have "strIncludes (getSubstitution pat pre w repl @ w @ []) n"
    using Nil.prems(2) by (rule strIncludes_append)
  ultimately show ?case by simp
next
  case (Cons c x)
  show ?case
  proof (cases "prefix pat (c # x @ pat @ w)")
    case True
    have "length pat - length (c # x @ pat) = 0" by simp
    then have "drop (length pat) ((c # x @ pat) @ w) = drop (length pat) (c # x @ pat) @ w"
      by (simp only: drop_append drop_0)
    then have d: "drop (length pat) (c # x @ pat @ w) = drop (length pat) (c # x @ pat) @ w"
      by (simp only: append_Cons append_assoc)
    have "replaceLiteral False pat repl pre (c # x @ pat @ w) =
            getSubstitution pat pre (drop (length pat) (c # x @ pat @ w)) repl @
            drop (length pat) (c # x @ pat @ w)"
      using True Cons.prems(1) by simp
    also have "\<dots> = (getSubstitution pat pre (drop (length pat) (c # x @ pat @ w)) repl @
            drop (length pat) (c # x @ pat)) @ w @ []"
      by (simp only: d append_assoc append_Nil2)
    finally have e: "replaceLiteral False pat repl pre (c # x @ pat @ w) =
        (getSubstitution pat pre (drop (length pat) (c # x @ pat @ w)) repl @
            drop (length pat) (c # x @ pat)) @ w @ []" .
    have "strIncludes ((getSubstitution pat pre (drop (length pat) (c # x @ pat @ w)) repl @
            drop (length pat) (c # x @ pat)) @ w @ []) n"
      using Cons.prems(2) by (rule strIncludes_append)
    with e show ?thesis by (simp only: append_Cons)
  next
    case False
    then have "replaceLiteral False pat repl pre (c # x @ pat @ w) =
            c # replaceLiteral False pat repl (pre @ [c]) (x @ pat @ w)"
      by simp
    with Cons.IH[OF Cons.prems, of "pre @ [c]"] show ?thesis by simp
  qed
qed

lemma formatPackages_keeps_later:
  assumes "strIncludes a ''{EXPRESS_URL_ROOT}''" and "strIncludes b n"
  shows "strIncludes (replaceLiteral False ''{EXPRESS_URL_ROOT}'' root [] (h @ a @ b @ f)) n"
proof -
  from assms(1) obtain p q where a: "a = p @ ''{EXPRESS_URL_ROOT}'' @ q"
    unfolding strIncludes_iff by blast
  have w: "strIncludes (q @ b @ f) n"
    using assms(2) by (rule strIncludes_append)
  have "h @ a @ b @ f = (h @ p) @ ''{EXPRESS_URL_ROOT}'' @ (q @ b @ f)"
    unfolding a by simp
  moreover have "strIncludes
      (replaceLiteral False ''{EXPRESS_URL_ROOT}'' root [] ((h @ p) @ ''{EXPRESS_URL_ROOT}'' @ (q @ b @ f)))
      n"
    by (rule replaceLiteral_keeps_later[OF _ w]) simp
  ultimately show ?thesis by (simp only:)
qed

lemma strIncludes_shorter: "strIncludes s (n @ m) \<Longrightarrow> strIncludes s n"
proof -
  assume "strIncludes s (n @ m)"
  then obtain p q where "s = p @ (n @ m) @ q" unfolding strIncludes_iff by blast
  then have "s = p @ n @ (m @ q)" by simp
  then show ?thesis unfolding strIncludes_iff by blast
qed

text \<open>The example template around the entries.\<close>

lemma exampleTemplates_entries:
  "replaceLiteral True (''{entries}'' @ [CHR 0x0A]) repl [] (packagesTemplate exampleTemplates) =
     ''<feed>\<newline>'' @
     getSubstitution (''{entries}'' @ [CHR 0x0A]) ''<feed>\<newline>'' ''</feed>\<newline>'' repl @
     ''</feed>\<newline>''"
  by (simp add: exampleTemplates_def)

lemma renderedA_placeholder:
  "list_ex (\<lambda>l. strIncludes l ''{EXPRESS_URL_ROOT}'')
     (map (replaceBraces (substitute preprocessedA)) entryTemplateLines)"
  by code_simp

lemma renderedB_placeholder:
  "list_ex (\<lambda>l. strIncludes l (''{EXPRESS_URL_ROOT}'' @ ''/download/pkg-b''))
     (map (replaceBraces (substitute preprocessedB)) entryTemplateLines)"
  by code_simp

lemma renderedA_no_dollar:
  "list_all (\<lambda>l. list_all (\<lambda>c. c \<noteq> CHR ''$'') l)
     (map (replaceBraces (substitute preprocessedA)) entryTemplateLines)"
  by code_simp

lemma renderedB_no_dollar:
  "list_all (\<lambda>l. list_all (\<lambda>c. c \<noteq> CHR ''$'') l)
     (map (replaceBraces (substitute preprocessedB)) entryTemplateLines)"
  by code_simp

lemma no_dollar_concat:
  "list_all (\<lambda>l. list_all (\<lambda>c. c \<noteq> CHR ''$'') l) ls \<Longrightarrow> CHR ''$'' \<notin> set (concat ls)"
  by (auto simp: list_all_iff)

lemma search_pkg: "takesSubstringBranch (searchRequest ''pkg'') ''pkg''"
proof -
  have "filterForOnePackage (searchFilter ''pkg'') = None" by code_simp
  moreover have "filterForManyPackages (searchFilter ''pkg'') = Some ''pkg''" by code_simp
  ultimately show ?thesis
    by (simp add: takesSubstringBranch_def searchRequest_def)
qed

text \<open>
  C1, on the code.  Two packages served from this server, both found by the search for
  \<open>pkg\<close>: each rendered entry carries \<open>{EXPRESS_URL_ROOT}\<close> in its download URL, the last
  \<open>replace\<close> of \<open>formatPackages\<close> has no flag \<open>g\<close> and replaces the first occurrence only,
  and the body of the response still contains the text \<open>{EXPRESS_URL_ROOT}\<close>, in the
  download URL of the second package.
\<close>

theorem placeholder_left_in_response:
  "configureRoutes exampleTemplates ''/'' [packageA, packageB] =
     Inr \<lparr>serverTemplates = exampleTemplates,
          packageMetadataList = [preprocessedA, preprocessedB]\<rparr> \<and>
   serve \<lparr>serverTemplates = exampleTemplates, packageMetadataList = [preprocessedA, preprocessedB]\<rparr>
     Packages (searchRequest ''pkg'') =
     \<lparr>status = 200, contentType = Some ATOM_MIME_TYPE,
      body = Text (formatPackages exampleTemplates [preprocessedA, preprocessedB]
                     (searchRequest ''pkg''))\<rparr> \<and>
   strIncludes
     (formatPackages exampleTemplates [preprocessedA, preprocessedB] (searchRequest ''pkg''))
     (''{EXPRESS_URL_ROOT}'' @ ''/download/pkg-b'') \<and>
   strIncludes
     (formatPackages exampleTemplates [preprocessedA, preprocessedB] (searchRequest ''pkg''))
     ''{EXPRESS_URL_ROOT}''"
proof -
  let ?srv = "\<lparr>serverTemplates = exampleTemplates,
               packageMetadataList = [preprocessedA, preprocessedB]\<rparr>"
  have 1: "configureRoutes exampleTemplates ''/'' [packageA, packageB] = Inr ?srv"
    by (simp add: configureRoutes_def normalizePrefix_def startsWith_def endsWith_def
        preprocess_packageA preprocess_packageB)
  have ea: "evaluable ''pkg'' preprocessedA"
    by (simp add: evaluable_def valContains_def preprocessedA_def packageA_def)
  have eb: "evaluable ''pkg'' preprocessedB"
    by (simp add: evaluable_def valContains_def preprocessedB_def packageB_def)
  have wa: "wholeTagMatch ''pkg'' preprocessedA"
    by (simp add: wholeTagMatch_def valContains_def preprocessedA_def packageA_def)
  have wb: "wholeTagMatch ''pkg'' preprocessedB"
    by (simp add: wholeTagMatch_def valContains_def preprocessedB_def packageB_def)
  have "selectPackages [preprocessedA, preprocessedB] (searchRequest ''pkg'') =
      Inr (Matched [preprocessedA, preprocessedB])"
    using selectPackages_evaluable[OF search_pkg, of "[preprocessedA, preprocessedB]"] ea eb wa wb
    by simp
  then have 2: "serve ?srv Packages (searchRequest ''pkg'') =
     \<lparr>status = 200, contentType = Some ATOM_MIME_TYPE,
      body = Text (formatPackages exampleTemplates [preprocessedA, preprocessedB]
                     (searchRequest ''pkg''))\<rparr>"
    by (simp add: packagesHandler_def get_def feed_def)
  have pa: "strIncludes (renderEntry preprocessedA) ''{EXPRESS_URL_ROOT}''"
    unfolding renderEntry_lines by (rule strIncludes_concat) (rule renderedA_placeholder)
  have pb: "strIncludes (renderEntry preprocessedB) (''{EXPRESS_URL_ROOT}'' @ ''/download/pkg-b'')"
    unfolding renderEntry_lines by (rule strIncludes_concat) (rule renderedB_placeholder)
  have "CHR ''$'' \<notin> set (renderEntry preprocessedA)"
    unfolding renderEntry_lines by (rule no_dollar_concat) (rule renderedA_no_dollar)
  moreover have "CHR ''$'' \<notin> set (renderEntry preprocessedB)"
    unfolding renderEntry_lines by (rule no_dollar_concat) (rule renderedB_no_dollar)
  ultimately have "CHR ''$'' \<notin> set (renderEntry preprocessedA @ renderEntry preprocessedB)"
    by simp
  then have g: "getSubstitution (''{entries}'' @ [CHR 0x0A]) ''<feed>\<newline>'' ''</feed>\<newline>''
        (renderEntry preprocessedA @ renderEntry preprocessedB) =
      renderEntry preprocessedA @ renderEntry preprocessedB"
    by (rule getSubstitution_no_dollar)
  have "formatPackages exampleTemplates [preprocessedA, preprocessedB] (searchRequest ''pkg'') =
      replaceLiteral False ''{EXPRESS_URL_ROOT}'' (urlRoot (searchRequest ''pkg'')) []
        (''<feed>\<newline>'' @ renderEntry preprocessedA @ renderEntry preprocessedB @
         ''</feed>\<newline>'')"
    unfolding formatPackages_def Let_def
    by (simp only: list.map join.simps append_Nil exampleTemplates_entries g append_assoc)
  then have 3: "strIncludes
     (formatPackages exampleTemplates [preprocessedA, preprocessedB] (searchRequest ''pkg''))
     (''{EXPRESS_URL_ROOT}'' @ ''/download/pkg-b'')"
    using formatPackages_keeps_later[OF pa pb] by (simp only:)
  from 3 have 4: "strIncludes
     (formatPackages exampleTemplates [preprocessedA, preprocessedB] (searchRequest ''pkg''))
     ''{EXPRESS_URL_ROOT}''"
    by (rule strIncludes_shorter)
  from 1 2 3 4 show ?thesis by (intro conjI)
qed

section \<open>What the entry template does with two placeholders on a line\<close>

lemma id_line: "entryTemplateLines ! 1 =
    ''    <id>https://choco-js-fake-data/package/{name}/{version}</id>\<newline>''"
  by code_simp

lemma render_first_lines:
  "take 2 (map (replaceBraces (substitute packageN)) entryTemplateLines) =
     [''  <entry>\<newline>'', ''    <id>https://choco-js-fake-data/package/</id>\<newline>'']"
  by code_simp

text \<open>
  C2, on the code.  The record has a name and a version.  \<open>.*\<close> is greedy: on the second
  line of the entry template the match runs from the first \<open>{\<close> to the last \<open>}\<close>, the key
  is \<open>name}/{version\<close>, the record has no such key, and the line is rendered with neither
  the name nor the version.
\<close>

theorem id_line_loses_both_fields:
  "substitute packageN ''name'' = ''pkg-n'' \<and> substitute packageN ''version'' = ''1.0'' \<and>
   entryTemplateLines ! 1 =
     ''    <id>https://choco-js-fake-data/package/{name}/{version}</id>\<newline>'' \<and>
   matchBraces ''{name}/{version}</id>\<newline>'' = Some (''name}/{version'', ''</id>\<newline>'') \<and>
   replaceBraces (substitute packageN) (entryTemplateLines ! 1) =
     ''    <id>https://choco-js-fake-data/package/</id>\<newline>'' \<and>
   prefix (''  <entry>\<newline>'' @ ''    <id>https://choco-js-fake-data/package/</id>\<newline>'')
     (renderEntry packageN)"
proof -
  have 1: "substitute packageN ''name'' = ''pkg-n''"
    by (simp add: substitute_def packageN_def)
  have 2: "substitute packageN ''version'' = ''1.0''"
    by (simp add: substitute_def packageN_def)
  have 3: "matchBraces ''{name}/{version}</id>\<newline>'' = Some (''name}/{version'', ''</id>\<newline>'')"
    by code_simp
  have 4: "replaceBraces (substitute packageN) (entryTemplateLines ! 1) =
     ''    <id>https://choco-js-fake-data/package/</id>\<newline>''"
    by code_simp
  let ?ls = "map (replaceBraces (substitute packageN)) entryTemplateLines"
  have "concat ?ls = concat (take 2 ?ls @ drop 2 ?ls)" by (simp only: append_take_drop_id)
  also have "\<dots> = (''  <entry>\<newline>'' @ ''    <id>https://choco-js-fake-data/package/</id>\<newline>'') @
      concat (drop 2 ?ls)"
    by (simp only: concat_append render_first_lines) simp
  finally have 5: "prefix (''  <entry>\<newline>'' @ ''    <id>https://choco-js-fake-data/package/</id>\<newline>'')
     (renderEntry packageN)"
    unfolding renderEntry_lines prefix_def by blast
  from 1 2 id_line 3 4 5 show ?thesis by (intro conjI)
qed

end
